theory Spec2Isabelle
  imports Complex_Main "HOL-Library.Word" "HOL-Library.Log_Nat"
begin

section \<open>Data model (WorkState.h)\<close>

type_synonym u8 = "8 word"
type_synonym u32 = "32 word"

record WorkState =
  finished :: bool
  suggestedSleepTime :: u32
  remainingTime :: u32

definition finishedWorkState :: "u32 \<Rightarrow> WorkState" where
  "finishedWorkState t =
     \<lparr>finished = True, suggestedSleepTime = 0, remainingTime = t\<rparr>"

definition unfinishedWorkState :: "u32 \<Rightarrow> WorkState" where
  "unfinishedWorkState t =
     \<lparr>finished = False, suggestedSleepTime = t, remainingTime = 0\<rparr>"

subsection \<open>The C++ type float\<close>

text \<open>
  A value of the C++ type \<open>float\<close> is modelled as the rational number it denotes. Every
  arithmetic operation computes the exact rational result and rounds it to a significand
  of 24 bits, to nearest, ties to even (the binary32 format without its exponent limits,
  infinities and NaN; \<open>round32\<close> below is the rounding with the limits, and the two agree
  on the multiples of \<open>2^-149\<close> below \<open>2^127\<close> in magnitude). In the model a division by zero and a call through a null pointer
  end the call with a \<open>fault\<close>, so that a theorem can say that neither happens.
\<close>

type_synonym float = rat

datatype fault = DivisionByZero | NullDereference

text \<open>\<open>ilog2 x\<close> is the exponent \<open>e\<close> with \<open>2^e \<le> x < 2^(e+1)\<close>, for \<open>x > 0\<close>.\<close>

definition ilog2 :: "rat \<Rightarrow> int" where
  "ilog2 x =
     (if 1 \<le> x then bitlen \<lfloor>x\<rfloor> - 1
      else let k = bitlen \<lfloor>1 / x\<rfloor> - 1
           in if x = 1 / 2 ^ nat k then - k else - k - 1)"

definition round_even :: "rat \<Rightarrow> int" where
  "round_even x =
     (let f = \<lfloor>x\<rfloor>; r = x - of_int f
      in if r < 1 / 2 then f
         else if 1 / 2 < r then f + 1
         else if even f then f else f + 1)"

definition pow2 :: "int \<Rightarrow> rat" where
  "pow2 e = (if 0 \<le> e then 2 ^ nat e else 1 / 2 ^ nat (- e))"

definition round24 :: "rat \<Rightarrow> float" where
  "round24 x =
     (if x = 0 then 0
      else let e = ilog2 \<bar>x\<bar> - 23
           in sgn x * of_int (round_even (\<bar>x\<bar> / pow2 e)) * pow2 e)"

definition fadd :: "float \<Rightarrow> float \<Rightarrow> float" where
  "fadd a b = round24 (a + b)"

definition fsub :: "float \<Rightarrow> float \<Rightarrow> float" where
  "fsub a b = round24 (a - b)"

definition fmul :: "float \<Rightarrow> float \<Rightarrow> float" where
  "fmul a b = round24 (a * b)"

definition fdiv :: "float \<Rightarrow> float \<Rightarrow> fault + float" where
  "fdiv a b = (if b = 0 then Inl DivisionByZero else Inr (round24 (a / b)))"

definition float_of_u32 :: "u32 \<Rightarrow> float" where
  "float_of_u32 w = round24 (of_nat (unat w))"

subsection \<open>Five-channel snapshots and the fade interpolator\<close>

record AnalogLedsState =
  red :: float
  amber :: float
  green :: float
  blue :: float
  white :: float

definition analogLedsState ::
  "float \<Rightarrow> float \<Rightarrow> float \<Rightarrow> float \<Rightarrow> float \<Rightarrow> AnalogLedsState" where
  "analogLedsState r a g b w = \<lparr>red = r, amber = a, green = g, blue = b, white = w\<rparr>"

definition intermediateValue :: "float \<Rightarrow> float \<Rightarrow> float \<Rightarrow> float" where
  "intermediateValue initial target relativeTime =
     (let delta = fsub target initial
      in fadd initial (fmul relativeTime delta))"

text \<open>Arduino's macro \<open>constrain(amt, low, high)\<close>.\<close>

definition constrain :: "float \<Rightarrow> float \<Rightarrow> float \<Rightarrow> float" where
  "constrain amt low high = (if amt < low then low else if high < amt then high else amt)"

definition intermediateState ::
  "AnalogLedsState \<Rightarrow> AnalogLedsState \<Rightarrow> float \<Rightarrow> AnalogLedsState" where
  "intermediateState initial target relativeTime =
     (let t = constrain relativeTime 0 1
      in \<lparr>red = intermediateValue (red initial) (red target) t,
          amber = intermediateValue (amber initial) (amber target) t,
          green = intermediateValue (green initial) (green target) t,
          blue = intermediateValue (blue initial) (blue target) t,
          white = intermediateValue (white initial) (white target) t\<rparr>)"

definition allLedsOn :: AnalogLedsState where
  "allLedsOn = analogLedsState 1 1 1 1 1"

definition allLedsOff :: AnalogLedsState where
  "allLedsOff = analogLedsState 0 0 0 0 0"








section \<open>The output sink\<close>

text \<open>
  The sketch writes to the LED pins and reads nothing back. The model keeps the writes as
  a trace, oldest first: \<open>DigitalOut\<close> for \<open>setDigitalLedStates\<close>, \<open>AnalogOut\<close>
  for \<open>setAnalogLedStates\<close>, and \<open>Applied i\<close> for each call of the virtual method
  \<open>applyLedStatesForState(i)\<close>.
\<close>

datatype led_event =
    Applied u8
  | DigitalOut bool bool bool bool bool
  | AnalogOut AnalogLedsState

type_synonym sink = "led_event list"

text \<open>
  What an implementation of \<open>applyLedStatesForState\<close> does: every implementation in
  the sketch calls \<open>setDigitalLedStates\<close> once, or \<open>startPwmTransition\<close> once (directly
  or through the \<open>startFade...\<close> helpers), or nothing when the index is outside its switch.
\<close>

datatype led_action =
    SetDigital bool bool bool bool bool
  | StartPwm u32 AnalogLedsState AnalogLedsState
  | NoAction

section \<open>StatefulController\<close>

record StatefulController =
  getStateDuration :: "u8 \<Rightarrow> u32"
  applyLedStates :: "u8 \<Rightarrow> led_action"
  maxStateIndex :: u8
  currentStateIndex :: u8
  timeSpentOnCurrentState :: u32
  pwmTransitionInProgress :: bool
  initialState :: AnalogLedsState
  targetState :: AnalogLedsState
  totalTransitionTime :: u32

text \<open>\<open>PWM_ANIMATION_INTERVAL\<close> is 30 in one variant of the sketch and 15 in the other.\<close>

definition PWM_ANIMATION_INTERVAL :: u32 where
  "PWM_ANIMATION_INTERVAL = 30"

text \<open>The constructor; the fields it leaves out are zero in an object of static storage.\<close>

definition newStatefulController ::
  "u8 \<Rightarrow> (u8 \<Rightarrow> u32) \<Rightarrow> (u8 \<Rightarrow> led_action) \<Rightarrow> StatefulController" where
  "newStatefulController n dur act =
     \<lparr>getStateDuration = dur, applyLedStates = act, maxStateIndex = n,
      currentStateIndex = 0, timeSpentOnCurrentState = 0,
      pwmTransitionInProgress = False, initialState = allLedsOff,
      targetState = allLedsOff, totalTransitionTime = 0\<rparr>"

definition setDigitalLedStates ::
  "bool \<Rightarrow> bool \<Rightarrow> bool \<Rightarrow> bool \<Rightarrow> bool \<Rightarrow> sink \<Rightarrow> sink" where
  "setDigitalLedStates r a g b w out = out @ [DigitalOut r a g b w]"

definition setAnalogLedStates :: "AnalogLedsState \<Rightarrow> sink \<Rightarrow> sink" where
  "setAnalogLedStates s out = out @ [AnalogOut s]"

definition startPwmTransition ::
  "u32 \<Rightarrow> AnalogLedsState \<Rightarrow> AnalogLedsState \<Rightarrow> StatefulController \<Rightarrow> sink
     \<Rightarrow> StatefulController \<times> sink" where
  "startPwmTransition transitionTime initial target c out =
     (c\<lparr>pwmTransitionInProgress := True, totalTransitionTime := transitionTime,
        initialState := initial, targetState := target\<rparr>,
      setAnalogLedStates initial out)"

fun runLedAction :: "led_action \<Rightarrow> StatefulController \<Rightarrow> sink \<Rightarrow> StatefulController \<times> sink" where
  "runLedAction (SetDigital r a g b w) c out = (c, setDigitalLedStates r a g b w out)"
| "runLedAction (StartPwm t initial target) c out = startPwmTransition t initial target c out"
| "runLedAction NoAction c out = (c, out)"

definition applyLedStatesForState ::
  "u8 \<Rightarrow> StatefulController \<Rightarrow> sink \<Rightarrow> StatefulController \<times> sink" where
  "applyLedStatesForState i c out = runLedAction (applyLedStates c i) c (out @ [Applied i])"

definition animatePwmTransition ::
  "u32 \<Rightarrow> StatefulController \<Rightarrow> sink \<Rightarrow> fault + StatefulController \<times> sink" where
  "animatePwmTransition t c out =
     (if totalTransitionTime c \<le> t
      then Inr (c\<lparr>pwmTransitionInProgress := False\<rparr>, setAnalogLedStates (targetState c) out)
      else case fdiv (float_of_u32 t) (float_of_u32 (totalTransitionTime c)) of
             Inl f \<Rightarrow> Inl f
           | Inr relativeElapsedTime \<Rightarrow>
               Inr (c, setAnalogLedStates
                         (intermediateState (initialState c) (targetState c) relativeElapsedTime)
                         out))"

text \<open>
  The while loop of \<open>doControl\<close>, on the triple of \<open>_timeSpentOnCurrentState\<close>,
  \<open>_currentStateIndex\<close> and \<open>currentStateDuration\<close>. \<open>None\<close> is a loop that never ends.
\<close>

partial_function (option) advanceStates ::
  "(u8 \<Rightarrow> u32) \<Rightarrow> u8 \<Rightarrow> u32 \<Rightarrow> u8 \<Rightarrow> u32 \<Rightarrow> (u32 \<times> u8 \<times> u32) option" where
  "advanceStates dur n t i d =
     (if d \<le> t \<and> i < n
      then advanceStates dur n (t - d) (i + 1) (if i + 1 < n then dur (i + 1) else 0)
      else Some (t, i, d))"

declare advanceStates.simps [code]

type_synonym 'c result = "(fault + WorkState \<times> 'c \<times> sink) option"

definition Stateful_doControl ::
  "StatefulController \<Rightarrow> u32 \<Rightarrow> sink \<Rightarrow> StatefulController result" where
  "Stateful_doControl c timeSinceLastCall out =
     (if maxStateIndex c \<le> currentStateIndex c
      then Some (Inr (finishedWorkState timeSinceLastCall, c, out))
      else
        case advanceStates (getStateDuration c) (maxStateIndex c)
               (timeSpentOnCurrentState c + timeSinceLastCall)
               (currentStateIndex c)
               (getStateDuration c (currentStateIndex c)) of
          None \<Rightarrow> None
        | Some (t, i, d) \<Rightarrow>
            let c1 = c\<lparr>currentStateIndex := i, timeSpentOnCurrentState := t\<rparr>
            in if maxStateIndex c \<le> i
               then Some (Inr (finishedWorkState t, c1, out))
               else
                 let (c2, out2) =
                       (if currentStateIndex c \<noteq> i then applyLedStatesForState i c1 out
                        else (c1, out))
                 in if pwmTransitionInProgress c2
                    then case animatePwmTransition t c2 out2 of
                           Inl f \<Rightarrow> Some (Inl f)
                         | Inr (c3, out3) \<Rightarrow>
                             Some (Inr (unfinishedWorkState PWM_ANIMATION_INTERVAL, c3, out3))
                    else Some (Inr (unfinishedWorkState (d - t), c2, out2)))"

definition Stateful_reset :: "StatefulController \<Rightarrow> sink \<Rightarrow> StatefulController \<times> sink" where
  "Stateful_reset c out =
     applyLedStatesForState 0 (c\<lparr>currentStateIndex := 0, timeSpentOnCurrentState := 0\<rparr>) out"

section \<open>LoopingController\<close>

text \<open>Every \<open>LoopingController\<close> of the sketch wraps a \<open>StatefulController\<close>.\<close>

record LoopingController =
  controller :: StatefulController
  maxLoopCount :: u32
  currentLoopCount :: u32

definition newLoopingController :: "StatefulController \<Rightarrow> u32 \<Rightarrow> LoopingController" where
  "newLoopingController c m = \<lparr>controller = c, maxLoopCount = m, currentLoopCount = 0\<rparr>"

partial_function (option) Looping_doControl ::
  "LoopingController \<Rightarrow> u32 \<Rightarrow> sink \<Rightarrow> LoopingController result" where
  "Looping_doControl l timeSinceLastCall out =
     (if maxLoopCount l \<le> currentLoopCount l
      then Some (Inr (finishedWorkState timeSinceLastCall, l, out))
      else
        case Stateful_doControl (controller l) timeSinceLastCall out of
          None \<Rightarrow> None
        | Some (Inl f) \<Rightarrow> Some (Inl f)
        | Some (Inr (innerResult, c1, out1)) \<Rightarrow>
            if \<not> finished innerResult
            then Some (Inr (innerResult, l\<lparr>controller := c1\<rparr>, out1))
            else
              let l1 = l\<lparr>controller := c1, currentLoopCount := currentLoopCount l + 1\<rparr>
              in if maxLoopCount l1 \<le> currentLoopCount l1
                 then Some (Inr (innerResult, l1, out1))
                 else
                   let (c2, out2) = Stateful_reset c1 out1
                   in Looping_doControl (l1\<lparr>controller := c2\<rparr>)
                        (remainingTime innerResult) out2)"

declare Looping_doControl.simps [code]

definition Looping_reset :: "LoopingController \<Rightarrow> sink \<Rightarrow> LoopingController \<times> sink" where
  "Looping_reset l out =
     (let (c1, out1) = Stateful_reset (controller l) out
      in (l\<lparr>controller := c1, currentLoopCount := 0\<rparr>, out1))"

text \<open>
  The durations \<open>d0..d(n-1)\<close> of the states as numbers, their total, and the time a
  machine accounts for: the durations of the states it has completed plus the time spent
  on the current one.
\<close>

definition durationsOf :: "(u8 \<Rightarrow> u32) \<Rightarrow> u8 \<Rightarrow> nat list" where
  "durationsOf dur n = map (\<lambda>k. unat (dur (of_nat k))) [0..<unat n]"

definition stateDurations :: "StatefulController \<Rightarrow> nat list" where
  "stateDurations c = durationsOf (getStateDuration c) (maxStateIndex c)"

definition totalDuration :: "StatefulController \<Rightarrow> nat" where
  "totalDuration c = sum_list (stateDurations c)"

definition consumedTime :: "StatefulController \<Rightarrow> nat" where
  "consumedTime c =
     sum_list (take (unat (currentStateIndex c)) (stateDurations c)) +
     unat (timeSpentOnCurrentState c)"

text \<open>The calls of \<open>applyLedStatesForState\<close> in a trace, in order.\<close>

fun activations :: "sink \<Rightarrow> u8 list" where
  "activations [] = []"
| "activations (Applied i # es) = i # activations es"
| "activations (DigitalOut r a g b w # es) = activations es"
| "activations (AnalogOut s # es) = activations es"

text \<open>
  A driver that calls \<open>doControl\<close> once for each elapsed time of a list, as \<open>loop()\<close>
  does, and keeps the results.
\<close>

fun runCalls ::
  "('c \<Rightarrow> u32 \<Rightarrow> sink \<Rightarrow> 'c result) \<Rightarrow> 'c \<Rightarrow> u32 list \<Rightarrow> sink
     \<Rightarrow> (fault + WorkState list \<times> 'c \<times> sink) option" where
  "runCalls doControl c [] out = Some (Inr ([], c, out))"
| "runCalls doControl c (t # ts) out =
     (case doControl c t out of
        None \<Rightarrow> None
      | Some (Inl f) \<Rightarrow> Some (Inl f)
      | Some (Inr (r, c1, out1)) \<Rightarrow>
          (case runCalls doControl c1 ts out1 of
             None \<Rightarrow> None
           | Some (Inl f) \<Rightarrow> Some (Inl f)
           | Some (Inr (rs, c2, out2)) \<Rightarrow> Some (Inr (r # rs, c2, out2))))"

text \<open>
  The Timed-State Machine as the specification words it (section 4.1, steps 1 to 4), for
  the repeater equivalence: \<open>N\<close> states with a duration each, a current index and the
  accumulated time in the state. The number of states and the index are natural numbers,
  so that a machine of \<open>M * N\<close> states exists for every iteration count \<open>M\<close> (a
  \<open>uint32_t\<close>) and every \<open>N\<close> (a \<open>uint8_t\<close>); the time is the \<open>uint32_t\<close> of the code.
  A call answers \<open>Done remainder\<close> or \<open>NotDone\<close>; \<open>outcomeOf\<close> reads the same answer
  from a \<open>WorkState\<close> of the code.
\<close>

datatype outcome = Done u32 | NotDone

definition outcomeOf :: "WorkState \<Rightarrow> outcome" where
  "outcomeOf ws = (if finished ws then Done (remainingTime ws) else NotDone)"

record TimedStateMachine =
  stateCount :: nat
  stateDuration :: "nat \<Rightarrow> u32"
  currentState :: nat
  timeInState :: u32

text \<open>
  Step 3: while the accumulated time is at least the duration of the current state and the
  index is below \<open>N\<close>, subtract the duration, increment the index and recompute the
  duration (zero when the index is out of range).
\<close>

function advanceWhile :: "(nat \<Rightarrow> u32) \<Rightarrow> nat \<Rightarrow> u32 \<Rightarrow> nat \<Rightarrow> u32 \<Rightarrow> u32 \<times> nat \<times> u32" where
  "advanceWhile dur n t i d =
     (if d \<le> t \<and> i < n
      then advanceWhile dur n (t - d) (i + 1) (if i + 1 < n then dur (i + 1) else 0)
      else (t, i, d))"
  by pat_completeness auto

termination advanceWhile
  by (relation "measure (\<lambda>(dur, n, t, i, d). n - i)") auto

declare advanceWhile.simps [simp del]

definition advance :: "TimedStateMachine \<Rightarrow> u32 \<Rightarrow> outcome \<times> TimedStateMachine" where
  "advance m elapsed =
     (if stateCount m \<le> currentState m then (Done elapsed, m)
      else
        let (t, i, d) = advanceWhile (stateDuration m) (stateCount m) (timeInState m + elapsed)
                          (currentState m) (stateDuration m (currentState m));
            m1 = m\<lparr>currentState := i, timeInState := t\<rparr>
        in if stateCount m \<le> i then (Done t, m1) else (NotDone, m1))"

definition resetMachine :: "TimedStateMachine \<Rightarrow> TimedStateMachine" where
  "resetMachine m = m\<lparr>currentState := 0, timeInState := 0\<rparr>"

fun advanceCalls :: "TimedStateMachine \<Rightarrow> u32 list \<Rightarrow> outcome list" where
  "advanceCalls m [] = []"
| "advanceCalls m (t # ts) = (let (r, m1) = advance m t in r # advanceCalls m1 ts)"

text \<open>
  \<open>machineOf c\<close> is a \<open>StatefulController\<close> of the code read as such a machine.
  \<open>singleMachine l\<close> is the single machine of the repeater equivalence: \<open>M * N\<close> states,
  where state \<open>k * N + i\<close> has the duration of state \<open>i\<close> of the wrapped machine.
\<close>

definition machineOf :: "StatefulController \<Rightarrow> TimedStateMachine" where
  "machineOf c =
     \<lparr>stateCount = unat (maxStateIndex c),
      stateDuration = (\<lambda>j. getStateDuration c (of_nat j)),
      currentState = unat (currentStateIndex c),
      timeInState = timeSpentOnCurrentState c\<rparr>"

definition singleMachine :: "LoopingController \<Rightarrow> TimedStateMachine" where
  "singleMachine l =
     (let c = controller l; n = unat (maxStateIndex c)
      in \<lparr>stateCount = unat (maxLoopCount l) * n,
          stateDuration = (\<lambda>j. getStateDuration c (of_nat (j mod n))),
          currentState = 0, timeInState = 0\<rparr>)"

text \<open>
  The relation between a repeater and its single machine that every call keeps: the single
  machine is at state \<open>k * N + i\<close> with the time of the wrapped machine, when the repeater
  is in iteration \<open>k\<close> and the wrapped machine at state \<open>i\<close>; both have finished
  otherwise.
\<close>

definition inLockstep :: "LoopingController \<Rightarrow> TimedStateMachine \<Rightarrow> bool" where
  "inLockstep l f \<longleftrightarrow>
     (let c = controller l; n = unat (maxStateIndex c); m = unat (maxLoopCount l);
          k = unat (currentLoopCount l); i = unat (currentStateIndex c)
      in stateCount f = m * n \<and>
         stateDuration f = (\<lambda>j. getStateDuration c (of_nat (j mod n))) \<and>
         (if n = 0 then True
          else if k < m
          then i < n \<and> currentState f = k * n + i \<and>
               timeInState f = timeSpentOnCurrentState c
          else stateCount f \<le> currentState f))"

section \<open>The animations of the sketch\<close>

definition TwoLedCombinations_apply :: "u8 \<Rightarrow> led_action" where
  "TwoLedCombinations_apply stateIndex =
     (if stateIndex = 0 then SetDigital True True False False False
      else if stateIndex = 1 then SetDigital False False True True False
      else if stateIndex = 2 then SetDigital True False False False True
      else if stateIndex = 3 then SetDigital False True True False False
      else if stateIndex = 4 then SetDigital False False False True True
      else if stateIndex = 5 then SetDigital True False True False False
      else if stateIndex = 6 then SetDigital False True False True False
      else if stateIndex = 7 then SetDigital False False True False True
      else if stateIndex = 8 then SetDigital True False False True False
      else if stateIndex = 9 then SetDigital False True False False True
      else NoAction)"

definition TwoLedCombinationsController :: "u32 \<Rightarrow> StatefulController" where
  "TwoLedCombinationsController timePerState =
     newStatefulController 10 (\<lambda>stateIndex. timePerState) TwoLedCombinations_apply"

definition FlowingThreeLeds_apply :: "u8 \<Rightarrow> led_action" where
  "FlowingThreeLeds_apply stateIndex =
     (if stateIndex = 0 then SetDigital True True True False False
      else if stateIndex = 1 then SetDigital False True True True False
      else if stateIndex = 2 then SetDigital False False True True True
      else if stateIndex = 3 then SetDigital True False False True True
      else if stateIndex = 4 then SetDigital True True False False True
      else NoAction)"

definition FlowingThreeLedsController :: "u32 \<Rightarrow> StatefulController" where
  "FlowingThreeLedsController timePerState =
     newStatefulController 5 (\<lambda>stateIndex. timePerState) FlowingThreeLeds_apply"

definition FadeOutThenIn_getLedsStateForState :: "u8 \<Rightarrow> AnalogLedsState" where
  "FadeOutThenIn_getLedsStateForState stateIndex =
     (let k = stateIndex div 2
      in if k = 0 then analogLedsState 0 0 1 1 1
         else if k = 1 then analogLedsState 1 1 0 0 1
         else if k = 2 then analogLedsState 0 1 1 1 0
         else if k = 3 then analogLedsState 1 0 0 1 1
         else if k = 4 then analogLedsState 1 1 1 0 0
         else if k = 5 then analogLedsState 0 1 0 1 1
         else if k = 6 then analogLedsState 1 0 1 0 1
         else if k = 7 then analogLedsState 1 1 0 1 0
         else if k = 8 then analogLedsState 0 1 1 0 1
         else if k = 9 then analogLedsState 1 0 1 1 0
         else allLedsOff)"

definition TwoLedCombinationsFadeOutThenInController ::
  "u32 \<Rightarrow> u32 \<Rightarrow> u32 \<Rightarrow> u32 \<Rightarrow> StatefulController" where
  "TwoLedCombinationsFadeOutThenInController fadeOutDuration sustainAfterFadeOutDuration
       fadeInDuration sustainAfterFadeInDuration =
     newStatefulController 20
       (\<lambda>stateIndex.
          if stateIndex mod 2 = 0 then fadeOutDuration + sustainAfterFadeOutDuration
          else fadeInDuration + sustainAfterFadeInDuration)
       (\<lambda>stateIndex.
          let targetLedsState = FadeOutThenIn_getLedsStateForState stateIndex
          in if stateIndex mod 2 = 0 then StartPwm fadeOutDuration allLedsOn targetLedsState
             else StartPwm fadeInDuration targetLedsState allLedsOn)"

definition SequentialFadeController ::
  "u32 \<Rightarrow> u32 \<Rightarrow> u32 \<Rightarrow> u32 \<Rightarrow> u32 \<Rightarrow> u32 \<Rightarrow> StatefulController" where
  "SequentialFadeController fadeInDuration sustainAfterFadeInDuration delayAfterFadingInAllLeds
       fadeOutDuration sustainAfterFadeOutDuration delayAfterFadingOutAllLeds =
     newStatefulController 12
       (\<lambda>stateIndex.
          if stateIndex = 5 then delayAfterFadingInAllLeds
          else if stateIndex = 11 then delayAfterFadingOutAllLeds
          else if stateIndex < 6 then fadeInDuration + sustainAfterFadeInDuration
          else fadeOutDuration + sustainAfterFadeOutDuration)
       (\<lambda>stateIndex.
          if stateIndex = 0
          then StartPwm fadeInDuration allLedsOff (analogLedsState 1 0 0 0 0)
          else if stateIndex = 1
          then StartPwm fadeInDuration (analogLedsState 1 0 0 0 0) (analogLedsState 1 1 0 0 0)
          else if stateIndex = 2
          then StartPwm fadeInDuration (analogLedsState 1 1 0 0 0) (analogLedsState 1 1 1 0 0)
          else if stateIndex = 3
          then StartPwm fadeInDuration (analogLedsState 1 1 1 0 0) (analogLedsState 1 1 1 1 0)
          else if stateIndex = 4
          then StartPwm fadeInDuration (analogLedsState 1 1 1 1 0) (analogLedsState 1 1 1 1 1)
          else if stateIndex = 5 then SetDigital True True True True True
          else if stateIndex = 6
          then StartPwm fadeOutDuration (analogLedsState 1 1 1 1 1) (analogLedsState 0 1 1 1 1)
          else if stateIndex = 7
          then StartPwm fadeOutDuration (analogLedsState 0 1 1 1 1) (analogLedsState 0 0 1 1 1)
          else if stateIndex = 8
          then StartPwm fadeOutDuration (analogLedsState 0 0 1 1 1) (analogLedsState 0 0 0 1 1)
          else if stateIndex = 9
          then StartPwm fadeOutDuration (analogLedsState 0 0 0 1 1) (analogLedsState 0 0 0 0 1)
          else if stateIndex = 10
          then StartPwm fadeOutDuration (analogLedsState 0 0 0 0 1) allLedsOff
          else if stateIndex = 11 then SetDigital False False False False False
          else NoAction)"

definition OneByOne_getLedsStateForSingleLedFadeState :: "u8 \<Rightarrow> AnalogLedsState" where
  "OneByOne_getLedsStateForSingleLedFadeState stateIndex =
     (if stateIndex < 10
      then let transitionIndex = stateIndex div 2
           in if transitionIndex = 0 then analogLedsState 1 0 0 0 0
              else if transitionIndex = 1 then analogLedsState 0 1 0 0 0
              else if transitionIndex = 2 then analogLedsState 0 0 1 0 0
              else if transitionIndex = 3 then analogLedsState 0 0 0 1 0
              else if transitionIndex = 4 then analogLedsState 0 0 0 0 1
              else allLedsOff
      else allLedsOff)"

definition OneByOneFadeController ::
  "u32 \<Rightarrow> u32 \<Rightarrow> u32 \<Rightarrow> u32 \<Rightarrow> u32 \<Rightarrow> u32 \<Rightarrow> u32 \<Rightarrow> u32 \<Rightarrow> StatefulController" where
  "OneByOneFadeController singleLedFadeInDuration singleLedSustainAfterFadeInDuration
       singleLedFadeOutDuration singleLedSustainAfterFadeOutDuration
       allLedsFadeInDuration allLedsSustainAfterFadeInDuration
       allLedsFadeOutDuration allLedsSustainAfterFadeOutDuration =
     newStatefulController 12
       (\<lambda>stateIndex.
          if stateIndex = 10 then allLedsFadeInDuration + allLedsSustainAfterFadeInDuration
          else if stateIndex = 11 then allLedsFadeOutDuration + allLedsSustainAfterFadeOutDuration
          else if stateIndex mod 2 = 0
          then singleLedFadeInDuration + singleLedSustainAfterFadeInDuration
          else singleLedFadeOutDuration + singleLedSustainAfterFadeOutDuration)
       (\<lambda>stateIndex.
          if stateIndex < 10
          then let targetState = OneByOne_getLedsStateForSingleLedFadeState stateIndex
               in if stateIndex mod 2 = 0
                  then StartPwm singleLedFadeInDuration allLedsOff targetState
                  else StartPwm singleLedFadeOutDuration targetState allLedsOff
          else if stateIndex = 10 then StartPwm allLedsFadeInDuration allLedsOff allLedsOn
          else if stateIndex = 11 then StartPwm allLedsFadeOutDuration allLedsOn allLedsOff
          else NoAction)"

section \<open>SwitchingController\<close>

datatype ILedController = Stateful StatefulController | Looping LoopingController

fun ILed_doControl :: "ILedController \<Rightarrow> u32 \<Rightarrow> sink \<Rightarrow> ILedController result" where
  "ILed_doControl (Stateful c) t out =
     (case Stateful_doControl c t out of
        None \<Rightarrow> None
      | Some (Inl f) \<Rightarrow> Some (Inl f)
      | Some (Inr (r, c1, out1)) \<Rightarrow> Some (Inr (r, Stateful c1, out1)))"
| "ILed_doControl (Looping l) t out =
     (case Looping_doControl l t out of
        None \<Rightarrow> None
      | Some (Inl f) \<Rightarrow> Some (Inl f)
      | Some (Inr (r, l1, out1)) \<Rightarrow> Some (Inr (r, Looping l1, out1)))"

fun ILed_reset :: "ILedController \<Rightarrow> sink \<Rightarrow> ILedController \<times> sink" where
  "ILed_reset (Stateful c) out = (let (c1, out1) = Stateful_reset c out in (Stateful c1, out1))"
| "ILed_reset (Looping l) out = (let (l1, out1) = Looping_reset l out in (Looping l1, out1))"

text \<open>
  The sketch keeps its animations in global objects and \<open>getControllerByIndex\<close> selects
  one of them by a switch, with \<open>NULL\<close> for any other index. The model keeps the objects
  in the list \<open>controllers\<close>, in the order of the switch; \<open>getControllerCount\<close> is its
  length.
\<close>

record SwitchingController =
  controllers :: "ILedController list"
  currentControllerIndex :: u8

definition getControllerByIndex :: "SwitchingController \<Rightarrow> u8 \<Rightarrow> ILedController option" where
  "getControllerByIndex sw index =
     (if unat index < length (controllers sw) then Some (controllers sw ! unat index) else None)"

definition getControllerCount :: "SwitchingController \<Rightarrow> u8" where
  "getControllerCount sw = of_nat (length (controllers sw))"

definition switchToController ::
  "u8 \<Rightarrow> SwitchingController \<Rightarrow> sink \<Rightarrow> SwitchingController \<times> sink" where
  "switchToController controllerIndex sw out =
     (let sw1 = sw\<lparr>currentControllerIndex := controllerIndex\<rparr>
      in case getControllerByIndex sw1 controllerIndex of
           None \<Rightarrow> (sw1, out)
         | Some currentController \<Rightarrow>
             let (c1, out1) = ILed_reset currentController out
             in (sw1\<lparr>controllers := (controllers sw1)[unat controllerIndex := c1]\<rparr>, out1))"

text \<open>
  The do-while loop of \<open>doControl\<close>, with the local \<open>remainingTime\<close> as \<open>remaining\<close>;
  it returns the suggested sleep time of the animation that did not finish. The comparison
  with \<open>controllerCount - 1\<close> is on C++ ints.
\<close>

partial_function (option) Switching_loop ::
  "SwitchingController \<Rightarrow> u32 \<Rightarrow> sink \<Rightarrow> (fault + u32 \<times> SwitchingController \<times> sink) option" where
  "Switching_loop sw remaining out =
     (case getControllerByIndex sw (currentControllerIndex sw) of
        None \<Rightarrow> Some (Inl NullDereference)
      | Some currentController \<Rightarrow>
          (case ILed_doControl currentController remaining out of
             None \<Rightarrow> None
           | Some (Inl f) \<Rightarrow> Some (Inl f)
           | Some (Inr (controllerState, c1, out1)) \<Rightarrow>
               let sw1 = sw\<lparr>controllers :=
                             (controllers sw)[unat (currentControllerIndex sw) := c1]\<rparr>
               in if finished controllerState
                  then
                    let next = (if uint (currentControllerIndex sw1)
                                     < uint (getControllerCount sw1) - 1
                                then currentControllerIndex sw1 + 1 else 0);
                        (sw2, out2) = switchToController next sw1 out1
                    in Switching_loop sw2 (remainingTime controllerState) out2
                  else Some (Inr (suggestedSleepTime controllerState, sw1, out1))))"

declare Switching_loop.simps [code]

definition Switching_doControl ::
  "SwitchingController \<Rightarrow> u32 \<Rightarrow> sink \<Rightarrow> SwitchingController result" where
  "Switching_doControl sw timeSinceLastCall out =
     (case Switching_loop sw timeSinceLastCall out of
        None \<Rightarrow> None
      | Some (Inl f) \<Rightarrow> Some (Inl f)
      | Some (Inr (suggested, sw1, out1)) \<Rightarrow>
          Some (Inr (unfinishedWorkState suggested, sw1, out1)))"

definition Switching_reset :: "SwitchingController \<Rightarrow> sink \<Rightarrow> SwitchingController \<times> sink" where
  "Switching_reset sw out = switchToController 0 sw out"

text \<open>The global objects of the sketch and its \<open>mainController\<close>.\<close>

definition slowTwoLedCombinationsControllerLoop :: LoopingController where
  "slowTwoLedCombinationsControllerLoop =
     newLoopingController (TwoLedCombinationsController 1000) 2"

definition fastTwoLedCombinationsControllerLoop :: LoopingController where
  "fastTwoLedCombinationsControllerLoop =
     newLoopingController (TwoLedCombinationsController 500) 4"

definition flowingThreeLedsControllerLoop :: LoopingController where
  "flowingThreeLedsControllerLoop = newLoopingController (FlowingThreeLedsController 100) 20"

definition twoLedCombinationsFadeOutThenInControllerLoop :: LoopingController where
  "twoLedCombinationsFadeOutThenInControllerLoop =
     newLoopingController (TwoLedCombinationsFadeOutThenInController 150 100 150 100) 4"

definition sequentialFadeControllerLoop :: LoopingController where
  "sequentialFadeControllerLoop =
     newLoopingController (SequentialFadeController 150 50 1000 300 100 1000) 3"

definition oneByOneFadeController :: StatefulController where
  "oneByOneFadeController = OneByOneFadeController 1000 2000 1000 0 3000 5000 3000 1000"

definition mainController :: SwitchingController where
  "mainController =
     \<lparr>controllers =
        [Looping slowTwoLedCombinationsControllerLoop,
         Looping fastTwoLedCombinationsControllerLoop,
         Looping sequentialFadeControllerLoop,
         Looping flowingThreeLedsControllerLoop,
         Looping twoLedCombinationsFadeOutThenInControllerLoop,
         Stateful oneByOneFadeController],
      currentControllerIndex = 0\<rparr>"

text \<open>
  What the sequencer needs from its animations to end a call: an animation takes time when
  it has a first state of positive duration (and, for a repeater, at least one iteration);
  it has just been reset when its counters are zero. A sequencer is well formed when its
  table is not empty, fits the \<open>uint8_t\<close> cursor, holds the cursor and every animation in
  it takes time.
\<close>

fun takesTime :: "ILedController \<Rightarrow> bool" where
  "takesTime (Stateful c) = (0 < maxStateIndex c \<and> getStateDuration c 0 \<noteq> 0)"
| "takesTime (Looping l) =
     (0 < maxLoopCount l \<and> 0 < maxStateIndex (controller l) \<and>
      getStateDuration (controller l) 0 \<noteq> 0)"

fun justReset :: "ILedController \<Rightarrow> bool" where
  "justReset (Stateful c) = (currentStateIndex c = 0 \<and> timeSpentOnCurrentState c = 0)"
| "justReset (Looping l) =
     (currentLoopCount l = 0 \<and> currentStateIndex (controller l) = 0 \<and>
      timeSpentOnCurrentState (controller l) = 0)"

definition wellFormed :: "SwitchingController \<Rightarrow> bool" where
  "wellFormed sw \<longleftrightarrow>
     controllers sw \<noteq> [] \<and> length (controllers sw) < 256 \<and>
     unat (currentControllerIndex sw) < length (controllers sw) \<and>
     list_all takesTime (controllers sw)"

section \<open>Evaluating the model on concrete machines\<close>

lemmas eval_defs = newStatefulController_def newLoopingController_def Stateful_reset_def
  applyLedStatesForState_def setDigitalLedStates_def setAnalogLedStates_def
  startPwmTransition_def Stateful_doControl_def advanceStates.simps unfinishedWorkState_def
  finishedWorkState_def consumedTime_def totalDuration_def stateDurations_def durationsOf_def
  animatePwmTransition_def PWM_ANIMATION_INTERVAL_def

lemmas catalog_defs = TwoLedCombinationsController_def TwoLedCombinations_apply_def
  FlowingThreeLedsController_def FlowingThreeLeds_apply_def
  TwoLedCombinationsFadeOutThenInController_def FadeOutThenIn_getLedsStateForState_def
  SequentialFadeController_def OneByOneFadeController_def
  OneByOne_getLedsStateForSingleLedFadeState_def

lemmas machine_defs = singleMachine_def resetMachine_def machineOf_def advance_def
  advanceWhile.simps outcomeOf_def

section \<open>The while loop of the state machine\<close>

lemma unat_succ: "(i::'a::len word) < n \<Longrightarrow> unat (i + 1) = Suc (unat i)"
proof -
  assume "i < n"
  then have "unat i < unat n" by (simp add: word_less_nat_alt)
  moreover have "unat n < 2 ^ LENGTH('a)" by (rule unsigned_less)
  ultimately have "unat i + 1 < 2 ^ LENGTH('a)" by linarith
  then show ?thesis by (simp add: unat_word_ariths)
qed

lemma advanceStates_total: "\<exists>r. advanceStates dur n t i d = Some r"
proof (induction "unat n - unat i" arbitrary: t i d)
  case 0
  then have "\<not> i < n" by (simp add: word_less_nat_alt)
  then show ?case by (subst advanceStates.simps) simp
next
  case (Suc k)
  then have lt: "i < n" by (simp add: word_less_nat_alt)
  with Suc have "k = unat n - unat (i + 1)" by (simp add: unat_succ)
  from Suc.hyps(1)[OF this] show ?case
    by (subst advanceStates.simps) auto
qed

lemma take_durationsOf_Suc:
  assumes "i < n"
  shows "sum_list (take (Suc (unat i)) (durationsOf dur n)) =
         sum_list (take (unat i) (durationsOf dur n)) + unat (dur i)"
proof -
  from assms have lt: "unat i < length (durationsOf dur n)"
    by (simp add: durationsOf_def word_less_nat_alt)
  then have "durationsOf dur n ! unat i = unat (dur i)"
    by (simp add: durationsOf_def)
  with lt show ?thesis by (simp add: take_Suc_conv_app_nth)
qed

lemma advanceStates_invariant:
  assumes "advanceStates dur n t i d = Some (t', i', d')"
    and "i \<le> n" and "d = (if i < n then dur i else 0)"
  shows "i \<le> i' \<and> i' \<le> n \<and> d' = (if i' < n then dur i' else 0) \<and>
         (i' < n \<longrightarrow> t' < d') \<and>
         sum_list (take (unat i') (durationsOf dur n)) + unat t' =
         sum_list (take (unat i) (durationsOf dur n)) + unat t"
  using assms
proof (induction "unat n - unat i" arbitrary: t i d)
  case 0
  then have "\<not> i < n" by (simp add: word_less_nat_alt)
  with 0 show ?case by (subst (asm) advanceStates.simps) auto
next
  case (Suc k)
  then have lt: "i < n" by (simp add: word_less_nat_alt)
  have su: "unat (i + 1) = Suc (unat i)" using lt by (rule unat_succ)
  show ?case
  proof (cases "d \<le> t")
    case False
    then have "advanceStates dur n t i d = Some (t, i, d)"
      by (subst advanceStates.simps) simp
    with Suc.prems(1) have "t' = t" "i' = i" "d' = d" by simp_all
    moreover from False have "t < d" by (simp add: not_le)
    ultimately show ?thesis using lt Suc.prems(2,3) by simp
  next
    case True
    let ?d1 = "if i + 1 < n then dur (i + 1) else 0"
    from True lt Suc.prems(1)
    have run: "advanceStates dur n (t - d) (i + 1) ?d1 = Some (t', i', d')"
      by (subst (asm) advanceStates.simps) simp
    have k: "k = unat n - unat (i + 1)" using Suc.hyps(2) su by simp
    have le1: "i + 1 \<le> n" using lt su by (simp add: word_le_nat_alt word_less_nat_alt)
    note IH = Suc.hyps(1)[OF k run le1 refl]
    have "i \<le> i + 1" using su by (simp add: word_le_nat_alt)
    moreover have "unat (t - d) = unat t - unat d" using True by (simp add: unat_sub)
    moreover have "unat d \<le> unat t" using True by (simp add: word_le_nat_alt)
    moreover have "d = dur i" using Suc.prems(3) lt by simp
    ultimately show ?thesis
      using IH take_durationsOf_Suc[OF lt, of dur] su by auto
  qed
qed

section \<open>Rounding to a float\<close>

lemma pow2_powi: "pow2 e = 2 powi e"
  by (simp add: pow2_def power_int_def inverse_eq_divide power_one_over)

lemma ilog2_ge1:
  fixes x :: rat
  assumes "1 \<le> x"
  shows "2 powi (ilog2 x) \<le> x \<and> x < 2 powi (ilog2 x + 1)"
proof -
  let ?n = "\<lfloor>x\<rfloor>"
  have n1: "1 \<le> ?n" using assms by simp
  then have n0: "0 < ?n" by simp
  have e: "ilog2 x = bitlen ?n - 1" using assms by (simp add: ilog2_def)
  have b1: "1 \<le> bitlen ?n" using n0 by (simp add: bitlen_alt_def)
  from bitlen_bounds[OF n0]
  have lo: "2 ^ nat (bitlen ?n - 1) \<le> ?n" and hi: "?n < 2 ^ nat (bitlen ?n)" by simp_all
  have "(2::rat) powi (bitlen ?n - 1) = of_int (2 ^ nat (bitlen ?n - 1))"
    using b1 by (simp add: power_int_def)
  also have "\<dots> \<le> of_int ?n" using lo by (simp only: of_int_le_iff)
  also have "\<dots> \<le> x" by simp
  finally have A: "2 powi (ilog2 x) \<le> x" by (simp add: e)
  have "x < of_int (?n + 1)" using floor_correct[of x] by simp
  also have "\<dots> \<le> of_int (2 ^ nat (bitlen ?n))" using hi by (simp only: of_int_le_iff)
  also have "\<dots> = (2::rat) powi (bitlen ?n)" using b1 by (simp add: power_int_def)
  finally have B: "x < 2 powi (ilog2 x + 1)" by (simp add: e)
  from A B show ?thesis ..
qed

lemma ilog2_bounds:
  fixes x :: rat
  assumes "0 < x"
  shows "2 powi (ilog2 x) \<le> x \<and> x < 2 powi (ilog2 x + 1)"
proof (cases "1 \<le> x")
  case True then show ?thesis by (rule ilog2_ge1)
next
  case False
  then have x1: "x < 1" by simp
  define y where "y = 1 / x"
  have y1: "1 \<le> y" using assms x1 by (simp add: y_def field_simps)
  define k where "k = bitlen \<lfloor>y\<rfloor> - 1"
  have ky: "ilog2 y = k" using y1 by (simp add: ilog2_def k_def)
  from ilog2_ge1[OF y1] ky
  have lo: "2 powi k \<le> y" and hi: "y < 2 powi (k + 1)" by simp_all
  have k0: "0 \<le> k"
  proof -
    have "0 < \<lfloor>y\<rfloor>" using y1 by simp
    then show ?thesis by (simp add: bitlen_alt_def k_def)
  qed
  define P where "P = (2::rat) powi k"
  have P0: "0 < P" by (simp add: P_def zero_less_power_int)
  have Pk: "P = 2 ^ nat k" using k0 by (simp add: P_def power_int_def)
  have P1: "(2::rat) powi (k + 1) = 2 * P"
    by (simp add: P_def power_int_add)
  have Pm: "(2::rat) powi (- k) = 1 / P" by (simp add: P_def power_int_minus_divide)
  have Pm1: "(2::rat) powi (- k - 1) = 1 / (2 * P)"
  proof -
    have "- k - 1 = - (k + 1)" by simp
    then show ?thesis by (simp only: power_int_minus_divide P1)
  qed
  have Pm2: "(2::rat) powi (- k + 1) = 2 / P"
  proof -
    have "(2::rat) powi (- k + 1) = 2 powi (- k) * 2 powi 1"
      by (rule power_int_add) simp
    then show ?thesis by (simp only: Pm) simp
  qed
  have up: "x \<le> 1 / P"
    using lo assms P0 by (simp add: y_def P_def[symmetric] field_simps)
  have "y < 2 * P" using hi by (simp only: P1)
  then have dn: "1 / (2 * P) < x"
    using assms P0 by (simp add: y_def field_simps)
  show ?thesis
  proof (cases "x = 1 / 2 ^ nat k")
    case True
    then have e: "ilog2 x = - k" using False by (simp add: ilog2_def Let_def k_def y_def)
    have xe: "x = 1 / P" using True Pk by simp
    have "1 / P < 2 / P" using P0 by (simp add: field_simps)
    with xe e Pm Pm2 show ?thesis by simp
  next
    case neq: False
    then have e: "ilog2 x = - k - 1" using False by (simp add: ilog2_def Let_def k_def y_def)
    have "x \<noteq> 1 / P" using neq Pk by simp
    with up have "x < 1 / P" by simp
    moreover have "- k - 1 + 1 = - k" by simp
    ultimately show ?thesis using dn e Pm Pm1 by simp
  qed
qed


lemma round_even_ge_floor: "\<lfloor>x\<rfloor> \<le> round_even x"
  by (simp add: round_even_def Let_def)



lemma scaled_bounds:
  fixes x :: rat
  assumes "0 < x"
  shows "2 ^ 23 \<le> x / 2 powi (ilog2 x - 23) \<and> x / 2 powi (ilog2 x - 23) < 2 ^ 24"
proof -
  define e where "e = ilog2 x"
  define P where "P = (2::rat) powi e"
  have P0: "0 < P" by (simp add: P_def zero_less_power_int)
  from ilog2_bounds[OF assms] have lo: "P \<le> x" and hi: "x < 2 powi (e + 1)"
    by (simp_all add: P_def e_def)
  have "(2::rat) powi (e + 1) = P * 2 powi 1" unfolding P_def by (rule power_int_add) simp
  with hi have hi': "x < 2 * P" by simp
  have "(2::rat) powi (e - 23) = P / 2 powi 23" unfolding P_def by (rule power_int_diff) simp
  then have d: "(2::rat) powi (e - 23) = P / 2 ^ 23" by simp
  define q where "q = x / P"
  have "x / (P / 2 ^ 23) = q * 2 ^ 23" by (simp add: q_def)
  moreover have "1 \<le> q" using lo P0 by (simp add: q_def field_simps)
  moreover have "q < 2" using hi' P0 by (simp add: q_def field_simps)
  ultimately show ?thesis unfolding e_def[symmetric] d by simp
qed

lemma round24_eq_0_iff: "round24 x = 0 \<longleftrightarrow> x = 0"
proof
  assume r: "round24 x = 0"
  show "x = 0"
  proof (rule ccontr)
    assume nz: "x \<noteq> 0"
    then have pos: "0 < \<bar>x\<bar>" by simp
    define s where "s = \<bar>x\<bar> / 2 powi (ilog2 \<bar>x\<bar> - 23)"
    from scaled_bounds[OF pos] have "2 ^ 23 \<le> s" by (simp add: s_def)
    then have "(8388608 :: int) \<le> \<lfloor>s\<rfloor>" by (simp add: le_floor_iff)
    with round_even_ge_floor[of s] have "0 < round_even s" by linarith
    moreover have "round24 x = sgn x * of_int (round_even s) * 2 powi (ilog2 \<bar>x\<bar> - 23)"
      using nz by (simp add: round24_def Let_def s_def pow2_powi)
    ultimately have "round24 x \<noteq> 0" using nz by (simp add: sgn_eq_0_iff)
    with r show False by simp
  qed
next
  assume "x = 0" then show "round24 x = 0" by (simp add: round24_def)
qed

lemma float_of_u32_eq_0_iff: "float_of_u32 w = 0 \<longleftrightarrow> w = 0"
  by (simp add: float_of_u32_def round24_eq_0_iff unsigned_eq_0_iff)














section \<open>One call of the state machine\<close>

lemma animatePwmTransition_Inr:
  "\<exists>c' evs. animatePwmTransition t c out = Inr (c', out @ evs) \<and> activations evs = [] \<and>
     getStateDuration c' = getStateDuration c \<and> applyLedStates c' = applyLedStates c \<and>
     maxStateIndex c' = maxStateIndex c \<and> currentStateIndex c' = currentStateIndex c \<and>
     timeSpentOnCurrentState c' = timeSpentOnCurrentState c"
proof (cases "totalTransitionTime c \<le> t")
  case True
  then show ?thesis by (simp add: animatePwmTransition_def setAnalogLedStates_def)
next
  case False
  then have "totalTransitionTime c \<noteq> 0" by auto
  then have "float_of_u32 (totalTransitionTime c) \<noteq> 0" by (simp add: float_of_u32_eq_0_iff)
  with False show ?thesis
    by (simp add: animatePwmTransition_def setAnalogLedStates_def fdiv_def)
qed

lemma activations_append: "activations (xs @ ys) = activations xs @ activations ys"
  by (induction xs rule: activations.induct) simp_all

lemma applyLedStatesForState_shape:
  "\<exists>c' evs. applyLedStatesForState i c out = (c', out @ evs) \<and> activations evs = [i] \<and>
     getStateDuration c' = getStateDuration c \<and> applyLedStates c' = applyLedStates c \<and>
     maxStateIndex c' = maxStateIndex c \<and> currentStateIndex c' = currentStateIndex c \<and>
     timeSpentOnCurrentState c' = timeSpentOnCurrentState c"
  by (cases "applyLedStates c i")
     (simp_all add: applyLedStatesForState_def startPwmTransition_def setAnalogLedStates_def
        setDigitalLedStates_def)

lemma Stateful_doControl_done:
  "maxStateIndex c \<le> currentStateIndex c \<Longrightarrow>
   Stateful_doControl c t out = Some (Inr (finishedWorkState t, c, out))"
  by (simp add: Stateful_doControl_def)

lemma Stateful_doControl_active:
  assumes act: "currentStateIndex c < maxStateIndex c"
    and loop: "advanceStates (getStateDuration c) (maxStateIndex c)
                 (timeSpentOnCurrentState c + t) (currentStateIndex c)
                 (getStateDuration c (currentStateIndex c)) = Some (t', i', d')"
  shows "\<exists>ws c' evs. Stateful_doControl c t out = Some (Inr (ws, c', out @ evs)) \<and>
           currentStateIndex c' = i' \<and> timeSpentOnCurrentState c' = t' \<and>
           getStateDuration c' = getStateDuration c \<and> applyLedStates c' = applyLedStates c \<and>
           maxStateIndex c' = maxStateIndex c \<and>
           finished ws = (maxStateIndex c \<le> i') \<and>
           remainingTime ws = (if maxStateIndex c \<le> i' then t' else 0) \<and>
           activations evs =
             (if i' < maxStateIndex c \<and> i' \<noteq> currentStateIndex c then [i'] else [])"
proof -
  let ?c1 = "c\<lparr>currentStateIndex := i', timeSpentOnCurrentState := t'\<rparr>"
  from act have nd: "\<not> maxStateIndex c \<le> currentStateIndex c" by simp
  show ?thesis
  proof (cases "maxStateIndex c \<le> i'")
    case True
    then have "Stateful_doControl c t out = Some (Inr (finishedWorkState t', ?c1, out @ []))"
      using nd loop by (simp add: Stateful_doControl_def)
    moreover have "\<not> i' < maxStateIndex c" using True by simp
    ultimately show ?thesis using True
      by (intro exI[of _ "finishedWorkState t'"] exI[of _ ?c1] exI[of _ "[]"])
         (simp add: finishedWorkState_def)
  next
    case False
    then have lt: "i' < maxStateIndex c" by simp
    obtain c2 evs2 where
      ap: "(if currentStateIndex c \<noteq> i' then applyLedStatesForState i' ?c1 out else (?c1, out))
             = (c2, out @ evs2)"
      and a2: "activations evs2 = (if i' \<noteq> currentStateIndex c then [i'] else [])"
      and f2: "getStateDuration c2 = getStateDuration c" "applyLedStates c2 = applyLedStates c"
        "maxStateIndex c2 = maxStateIndex c" "currentStateIndex c2 = i'"
        "timeSpentOnCurrentState c2 = t'"
    proof (cases "currentStateIndex c \<noteq> i'")
      case True
      from applyLedStatesForState_shape[of i' ?c1 out] obtain c' evs where
        "applyLedStatesForState i' ?c1 out = (c', out @ evs)" "activations evs = [i']"
        "getStateDuration c' = getStateDuration ?c1" "applyLedStates c' = applyLedStates ?c1"
        "maxStateIndex c' = maxStateIndex ?c1" "currentStateIndex c' = currentStateIndex ?c1"
        "timeSpentOnCurrentState c' = timeSpentOnCurrentState ?c1" by blast
      with True that[of c' evs] show ?thesis by auto
    next
      case False
      with that[of ?c1 "[]"] show ?thesis by auto
    qed
    show ?thesis
    proof (cases "pwmTransitionInProgress c2")
      case True
      from animatePwmTransition_Inr[of t' c2 "out @ evs2"] obtain c3 evs3 where
        an: "animatePwmTransition t' c2 (out @ evs2) = Inr (c3, (out @ evs2) @ evs3)"
        and a3: "activations evs3 = []"
        and f3: "getStateDuration c3 = getStateDuration c2" "applyLedStates c3 = applyLedStates c2"
        "maxStateIndex c3 = maxStateIndex c2" "currentStateIndex c3 = currentStateIndex c2"
        "timeSpentOnCurrentState c3 = timeSpentOnCurrentState c2" by blast
      have "Stateful_doControl c t out =
              Some (Inr (unfinishedWorkState PWM_ANIMATION_INTERVAL, c3, out @ (evs2 @ evs3)))"
        using nd loop False ap True an by (simp add: Stateful_doControl_def Let_def)
      then show ?thesis using False lt a2 a3 f2 f3
        by (intro exI[of _ "unfinishedWorkState PWM_ANIMATION_INTERVAL"] exI[of _ c3]
              exI[of _ "evs2 @ evs3"])
           (simp add: unfinishedWorkState_def activations_append)
    next
      case np: False
      have "Stateful_doControl c t out =
              Some (Inr (unfinishedWorkState (d' - t'), c2, out @ evs2))"
        using nd loop False ap np by (simp add: Stateful_doControl_def Let_def)
      then show ?thesis using False lt a2 f2
        by (intro exI[of _ "unfinishedWorkState (d' - t')"] exI[of _ c2] exI[of _ evs2])
           (simp add: unfinishedWorkState_def)
    qed
  qed
qed

lemma Stateful_doControl_total:
  "\<exists>ws c' evs. Stateful_doControl c t out = Some (Inr (ws, c', out @ evs))"
proof (cases "maxStateIndex c \<le> currentStateIndex c")
  case True
  then show ?thesis using Stateful_doControl_done[of c t out] by auto
next
  case False
  then have act: "currentStateIndex c < maxStateIndex c" by simp
  obtain t' i' d' where
    "advanceStates (getStateDuration c) (maxStateIndex c) (timeSpentOnCurrentState c + t)
       (currentStateIndex c) (getStateDuration c (currentStateIndex c)) = Some (t', i', d')"
    using advanceStates_total by (metis prod_cases3)
  from Stateful_doControl_active[OF act this] show ?thesis by blast
qed

lemma length_stateDurations: "length (stateDurations c) = unat (maxStateIndex c)"
  by (simp add: stateDurations_def durationsOf_def)

lemma Stateful_doControl_accounting:
  assumes act: "currentStateIndex c < maxStateIndex c"
    and nov: "unat (timeSpentOnCurrentState c) + unat t < 2 ^ 32"
  shows "\<exists>ws c' evs. Stateful_doControl c t out = Some (Inr (ws, c', out @ evs)) \<and>
           getStateDuration c' = getStateDuration c \<and> applyLedStates c' = applyLedStates c \<and>
           maxStateIndex c' = maxStateIndex c \<and>
           currentStateIndex c' \<le> maxStateIndex c \<and>
           consumedTime c' = consumedTime c + unat t \<and>
           finished ws = (totalDuration c \<le> consumedTime c + unat t) \<and>
           finished ws = (currentStateIndex c' = maxStateIndex c) \<and>
           (finished ws \<longrightarrow>
              unat (remainingTime ws) = consumedTime c + unat t - totalDuration c)"
proof -
  let ?dur = "getStateDuration c" and ?n = "maxStateIndex c"
  obtain t' i' d' where loop:
    "advanceStates ?dur ?n (timeSpentOnCurrentState c + t)
       (currentStateIndex c) (?dur (currentStateIndex c)) = Some (t', i', d')"
    using advanceStates_total by (metis prod_cases3)
  from act have le: "currentStateIndex c \<le> ?n" by simp
  from act have d: "?dur (currentStateIndex c) = (if currentStateIndex c < ?n
      then ?dur (currentStateIndex c) else 0)" by simp
  from advanceStates_invariant[OF loop le d]
  have i'n: "i' \<le> ?n" and d': "d' = (if i' < ?n then ?dur i' else 0)"
    and lt: "i' < ?n \<longrightarrow> t' < d'"
    and acc: "sum_list (take (unat i') (durationsOf ?dur ?n)) + unat t' =
         sum_list (take (unat (currentStateIndex c)) (durationsOf ?dur ?n)) +
         unat (timeSpentOnCurrentState c + t)" by blast+
  have add: "unat (timeSpentOnCurrentState c + t) = unat (timeSpentOnCurrentState c) + unat t"
    using nov by (simp add: unat_add_lem[THEN iffD1])
  from Stateful_doControl_active[OF act loop, of out] obtain ws c' evs where
    res: "Stateful_doControl c t out = Some (Inr (ws, c', out @ evs))"
    and f: "currentStateIndex c' = i'" "timeSpentOnCurrentState c' = t'"
      "getStateDuration c' = ?dur" "applyLedStates c' = applyLedStates c" "maxStateIndex c' = ?n"
    and fin: "finished ws = (?n \<le> i')"
    and rem: "remainingTime ws = (if ?n \<le> i' then t' else 0)" by blast
  have sd: "stateDurations c' = stateDurations c" using f by (simp add: stateDurations_def)
  have cons: "consumedTime c' = consumedTime c + unat t"
    using acc add f sd by (simp add: consumedTime_def stateDurations_def)
  have fin2: "finished ws = (i' = ?n)" using fin i'n by auto
  have tot: "(i' = ?n) = (totalDuration c \<le> consumedTime c')"
  proof (cases "i' = ?n")
    case True
    then have "consumedTime c' = totalDuration c + unat t'"
      using f sd length_stateDurations[of c] by (simp add: consumedTime_def totalDuration_def)
    with True show ?thesis by simp
  next
    case False
    with i'n have l: "i' < ?n" by simp
    with lt d' have "unat t' < unat (?dur i')" by (simp add: word_less_nat_alt)
    then have "consumedTime c' < sum_list (take (Suc (unat i')) (durationsOf ?dur ?n))"
      using take_durationsOf_Suc[OF l, of ?dur] f sd
      by (simp add: consumedTime_def stateDurations_def)
    also have "\<dots> \<le> sum_list (durationsOf ?dur ?n)"
      by (metis append_take_drop_id le_add1 sum_list_append)
    finally show ?thesis using False by (simp add: totalDuration_def stateDurations_def)
  qed
  have remv: "finished ws \<longrightarrow> unat (remainingTime ws) = consumedTime c + unat t - totalDuration c"
  proof
    assume "finished ws"
    then have e: "i' = ?n" using fin2 by simp
    then have "consumedTime c' = totalDuration c + unat t'"
      using f sd length_stateDurations[of c] by (simp add: consumedTime_def totalDuration_def)
    with cons rem e show "unat (remainingTime ws) = consumedTime c + unat t - totalDuration c"
      by simp
  qed
  show ?thesis
    using res f i'n cons fin2 tot remv
    by (intro exI[of _ ws] exI[of _ c'] exI[of _ evs]) simp
qed

lemma runCalls_snoc:
  assumes "runCalls f c ts out = Some (Inr (rs, c1, out1))"
    and "f c1 t out1 = Some (Inr (r, c2, out2))"
  shows "runCalls f c (ts @ [t]) out = Some (Inr (rs @ [r], c2, out2))"
  using assms
proof (induction ts arbitrary: c out rs)
  case Nil
  then show ?case by simp
next
  case (Cons a ts)
  then show ?case
    by (auto split: option.splits sum.splits prod.splits)
qed

lemma Stateful_reset_shape:
  "\<exists>c' evs. Stateful_reset c out = (c', out @ evs) \<and> activations evs = [0] \<and>
     getStateDuration c' = getStateDuration c \<and> applyLedStates c' = applyLedStates c \<and>
     maxStateIndex c' = maxStateIndex c \<and> currentStateIndex c' = 0 \<and>
     timeSpentOnCurrentState c' = 0"
  using applyLedStatesForState_shape
          [of 0 "c\<lparr>currentStateIndex := 0, timeSpentOnCurrentState := 0\<rparr>" out]
  by (auto simp: Stateful_reset_def)

lemma unat_time_le_consumedTime: "unat (timeSpentOnCurrentState c) \<le> consumedTime c"
  by (simp add: consumedTime_def)

lemma total_le_consumed_at_end:
  "currentStateIndex c = maxStateIndex c \<Longrightarrow> totalDuration c \<le> consumedTime c"
  using length_stateDurations[of c] by (simp add: consumedTime_def totalDuration_def)

lemma runCalls_Stateful_running:
  assumes "currentStateIndex c \<le> maxStateIndex c"
    and "consumedTime c + sum_list (map unat ts) < totalDuration c"
    and "consumedTime c + sum_list (map unat ts) < 2 ^ 32"
  shows "\<exists>rs c' evs. runCalls Stateful_doControl c ts out = Some (Inr (rs, c', out @ evs)) \<and>
           length rs = length ts \<and> (\<forall>r\<in>set rs. \<not> finished r) \<and>
           consumedTime c' = consumedTime c + sum_list (map unat ts) \<and>
           getStateDuration c' = getStateDuration c \<and> applyLedStates c' = applyLedStates c \<and>
           maxStateIndex c' = maxStateIndex c \<and> currentStateIndex c' \<le> maxStateIndex c'"
  using assms
proof (induction ts arbitrary: c out)
  case Nil
  then show ?case by (intro exI[of _ "[]"] exI[of _ c]) simp
next
  case (Cons t ts)
  have act: "currentStateIndex c < maxStateIndex c"
  proof (rule ccontr)
    assume "\<not> currentStateIndex c < maxStateIndex c"
    with Cons.prems(1) have "currentStateIndex c = maxStateIndex c" by simp
    from total_le_consumed_at_end[OF this] Cons.prems(2) show False by simp
  qed
  have nov: "unat (timeSpentOnCurrentState c) + unat t < 2 ^ 32"
    using unat_time_le_consumedTime[of c] Cons.prems(3) by simp
  from Stateful_doControl_accounting[OF act nov, of out] obtain ws c1 evs1 where
    step: "Stateful_doControl c t out = Some (Inr (ws, c1, out @ evs1))"
    and f: "getStateDuration c1 = getStateDuration c" "applyLedStates c1 = applyLedStates c"
      "maxStateIndex c1 = maxStateIndex c"
    and le1: "currentStateIndex c1 \<le> maxStateIndex c"
    and cons: "consumedTime c1 = consumedTime c + unat t"
    and fin: "finished ws = (totalDuration c \<le> consumedTime c + unat t)" by blast
  have td: "totalDuration c1 = totalDuration c"
    using f by (simp add: totalDuration_def stateDurations_def)
  have nf: "\<not> finished ws" using fin Cons.prems(2) by simp
  have p1: "currentStateIndex c1 \<le> maxStateIndex c1" using le1 f by simp
  have p2: "consumedTime c1 + sum_list (map unat ts) < totalDuration c1"
    using cons td Cons.prems(2) by simp
  have p3: "consumedTime c1 + sum_list (map unat ts) < 2 ^ 32"
    using cons Cons.prems(3) by simp
  from Cons.IH[OF p1 p2 p3, of "out @ evs1"] obtain rs c' evs where
    run: "runCalls Stateful_doControl c1 ts (out @ evs1) = Some (Inr (rs, c', (out @ evs1) @ evs))"
    and r: "length rs = length ts" "\<forall>r\<in>set rs. \<not> finished r"
      "consumedTime c' = consumedTime c1 + sum_list (map unat ts)"
      "getStateDuration c' = getStateDuration c1" "applyLedStates c' = applyLedStates c1"
      "maxStateIndex c' = maxStateIndex c1" "currentStateIndex c' \<le> maxStateIndex c'" by blast
  have "runCalls Stateful_doControl c (t # ts) out = Some (Inr (ws # rs, c', out @ (evs1 @ evs)))"
    using step run by simp
  then show ?case using r nf cons f
    by (intro exI[of _ "ws # rs"] exI[of _ c'] exI[of _ "evs1 @ evs"]) simp
qed

lemma Stateful_doControl_result:
  assumes act: "currentStateIndex c < maxStateIndex c"
    and loop: "advanceStates (getStateDuration c) (maxStateIndex c)
                 (timeSpentOnCurrentState c + t) (currentStateIndex c)
                 (getStateDuration c (currentStateIndex c)) = Some (t', i', d')"
    and res: "Stateful_doControl c t out = Some (Inr (ws, c', out'))"
  shows "currentStateIndex c' = i' \<and> timeSpentOnCurrentState c' = t' \<and>
         getStateDuration c' = getStateDuration c \<and> applyLedStates c' = applyLedStates c \<and>
         maxStateIndex c' = maxStateIndex c \<and>
         finished ws = (maxStateIndex c \<le> i') \<and>
         remainingTime ws = (if maxStateIndex c \<le> i' then t' else 0)"
  using Stateful_doControl_active[OF act loop, of out] res by auto

lemma Looping_reset_shape:
  "\<exists>l' evs. Looping_reset l out = (l', out @ evs) \<and> maxLoopCount l' = maxLoopCount l \<and>
     currentLoopCount l' = 0 \<and>
     getStateDuration (controller l') = getStateDuration (controller l) \<and>
     maxStateIndex (controller l') = maxStateIndex (controller l) \<and>
     currentStateIndex (controller l') = 0 \<and> timeSpentOnCurrentState (controller l') = 0"
proof -
  from Stateful_reset_shape[of "controller l" out] obtain c' evs where
    "Stateful_reset (controller l) out = (c', out @ evs)"
    "getStateDuration c' = getStateDuration (controller l)"
    "maxStateIndex c' = maxStateIndex (controller l)"
    "currentStateIndex c' = 0" "timeSpentOnCurrentState c' = 0" by blast
  then show ?thesis
    by (intro exI[of _ "l\<lparr>controller := c', currentLoopCount := 0\<rparr>"] exI[of _ evs])
       (simp add: Looping_reset_def)
qed

lemma Looping_doControl_total:
  "\<exists>ws l' evs. Looping_doControl l t out = Some (Inr (ws, l', out @ evs))"
proof (induction "unat (maxLoopCount l) - unat (currentLoopCount l)" arbitrary: l t out)
  case 0
  then have "maxLoopCount l \<le> currentLoopCount l" by (simp add: word_le_nat_alt)
  then have "Looping_doControl l t out = Some (Inr (finishedWorkState t, l, out @ []))"
    by (subst Looping_doControl.simps) simp
  then show ?case by blast
next
  case (Suc k)
  then have lt: "currentLoopCount l < maxLoopCount l" by (simp add: word_less_nat_alt)
  then have nle: "\<not> maxLoopCount l \<le> currentLoopCount l" by simp
  from Stateful_doControl_total[of "controller l" t out] obtain ws c1 evs1 where
    inner: "Stateful_doControl (controller l) t out = Some (Inr (ws, c1, out @ evs1))" by blast
  show ?case
  proof (cases "finished ws")
    case False
    with nle inner
    have "Looping_doControl l t out = Some (Inr (ws, l\<lparr>controller := c1\<rparr>, out @ evs1))"
      by (subst Looping_doControl.simps) simp
    then show ?thesis by blast
  next
    case True
    let ?l1 = "l\<lparr>controller := c1, currentLoopCount := currentLoopCount l + 1\<rparr>"
    show ?thesis
    proof (cases "maxLoopCount l \<le> currentLoopCount l + 1")
      case le: True
      with True nle inner
      have "Looping_doControl l t out = Some (Inr (ws, ?l1, out @ evs1))"
        by (subst Looping_doControl.simps) simp
      then show ?thesis by blast
    next
      case gt: False
      from Stateful_reset_shape[of c1 "out @ evs1"] obtain c2 evs2 where
        rs: "Stateful_reset c1 (out @ evs1) = (c2, (out @ evs1) @ evs2)" by blast
      let ?l2 = "?l1\<lparr>controller := c2\<rparr>"
      have rec: "Looping_doControl l t out =
                   Looping_doControl ?l2 (remainingTime ws) ((out @ evs1) @ evs2)"
        using True nle inner gt rs by (subst Looping_doControl.simps) simp
      have "k = unat (maxLoopCount ?l2) - unat (currentLoopCount ?l2)"
        using Suc.hyps(2) unat_succ[OF lt] by simp
      from Suc.hyps(1)[OF this, of "remainingTime ws" "(out @ evs1) @ evs2"] obtain ws' l' evs' where
        "Looping_doControl ?l2 (remainingTime ws) ((out @ evs1) @ evs2)
           = Some (Inr (ws', l', ((out @ evs1) @ evs2) @ evs'))" by blast
      with rec have "Looping_doControl l t out = Some (Inr (ws', l', out @ (evs1 @ evs2 @ evs')))"
        by simp
      then show ?thesis by blast
    qed
  qed
qed

section \<open>C1: what reset does\<close>

text \<open>
  C1, as the code has it. \<open>reset()\<close> sets the state index and the time in the state to 0 and
  calls the activation callback of state 0, once. It does not clear the fade flag: when the
  callback of state 0 starts a fade, the flag is set after the reset and the fade is the one
  of state 0, whatever fade was in progress before.
\<close>

theorem Stateful_reset_initial_state:
  "\<exists>c' evs. Stateful_reset c out = (c', out @ evs) \<and>
     currentStateIndex c' = 0 \<and> timeSpentOnCurrentState c' = 0 \<and> activations evs = [0] \<and>
     (\<forall>t a b. applyLedStates c 0 = StartPwm t a b \<longrightarrow>
        pwmTransitionInProgress c' \<and> totalTransitionTime c' = t \<and>
        initialState c' = a \<and> targetState c' = b)"
  by (cases "applyLedStates c 0")
     (simp_all add: Stateful_reset_def applyLedStatesForState_def startPwmTransition_def
        setAnalogLedStates_def setDigitalLedStates_def)

theorem Stateful_reset_initial_state_witness:
  "applyLedStates (SequentialFadeController 150 50 1000 300 100 1000) 0 =
     StartPwm 150 allLedsOff (analogLedsState 1 0 0 0 0) \<and>
   (\<exists>c' evs. Stateful_reset (SequentialFadeController 150 50 1000 300 100 1000) [] = (c', [] @ evs) \<and>
     currentStateIndex c' = 0 \<and> timeSpentOnCurrentState c' = 0 \<and> activations evs = [0] \<and>
     pwmTransitionInProgress c' \<and> totalTransitionTime c' = 150 \<and>
     initialState c' = allLedsOff \<and> targetState c' = analogLedsState 1 0 0 0 0)"
proof -
  have a: "applyLedStates (SequentialFadeController 150 50 1000 300 100 1000) 0 =
     StartPwm 150 allLedsOff (analogLedsState 1 0 0 0 0)"
    by (simp add: SequentialFadeController_def newStatefulController_def)
  from Stateful_reset_initial_state[of "SequentialFadeController 150 50 1000 300 100 1000" "[]"] a
  show ?thesis by blast
qed

text \<open>
  The claim that reset clears the fade flag fails on the sequential fade animation of the
  sketch: its state 0 starts a fade, so the flag is set after a reset.
\<close>

theorem Stateful_reset_counterexample:
  "pwmTransitionInProgress
     (fst (Stateful_reset (SequentialFadeController 150 50 1000 300 100 1000) []))"
  by (simp add: eval_defs catalog_defs)

section \<open>C2: conservation of time\<close>

text \<open>
  C2, with the bound the 32-bit time counter needs. From the reset state, for every list of
  elapsed times whose sum \<open>T\<close> is less than the total of the state durations and less than
  \<open>2^32\<close>, every call returns an unfinished result, and afterwards the durations of the
  completed states plus the time spent on the current state equal \<open>T\<close>.
\<close>

theorem conservation_of_time:
  assumes "sum_list (map unat ts) < totalDuration c"
    and "sum_list (map unat ts) < 2 ^ 32"
  shows "\<exists>rs c' out'.
           runCalls Stateful_doControl (fst (Stateful_reset c out)) ts (snd (Stateful_reset c out))
             = Some (Inr (rs, c', out')) \<and>
           length rs = length ts \<and> (\<forall>r\<in>set rs. \<not> finished r) \<and>
           consumedTime c' = sum_list (map unat ts)"
proof -
  from Stateful_reset_shape[of c out] obtain c0 evs0 where
    rs: "Stateful_reset c out = (c0, out @ evs0)"
    and f: "getStateDuration c0 = getStateDuration c" "maxStateIndex c0 = maxStateIndex c"
      "currentStateIndex c0 = 0" "timeSpentOnCurrentState c0 = 0" by blast
  have c0: "consumedTime c0 = 0" using f by (simp add: consumedTime_def)
  have td: "totalDuration c0 = totalDuration c"
    using f by (simp add: totalDuration_def stateDurations_def)
  have "currentStateIndex c0 \<le> maxStateIndex c0" using f by simp
  from runCalls_Stateful_running[OF this, of ts "out @ evs0"] assms c0 td rs
  show ?thesis by auto
qed

theorem conservation_of_time_witness:
  "sum_list (map unat [0, 120, 40 :: u32]) < totalDuration (FlowingThreeLedsController 100) \<and>
   sum_list (map unat [0, 120, 40 :: u32]) < 2 ^ 32 \<and>
   (\<exists>rs c' out'.
      runCalls Stateful_doControl (fst (Stateful_reset (FlowingThreeLedsController 100) []))
          [0, 120, 40] (snd (Stateful_reset (FlowingThreeLedsController 100) []))
        = Some (Inr (rs, c', out')) \<and>
      length rs = length [0, 120, 40 :: u32] \<and> (\<forall>r\<in>set rs. \<not> finished r) \<and>
      consumedTime c' = sum_list (map unat [0, 120, 40 :: u32]))"
proof -
  have h1: "sum_list (map unat [0, 120, 40 :: u32]) < totalDuration (FlowingThreeLedsController 100)"
    by (simp add: eval_defs catalog_defs upt_rec)
  have h2: "sum_list (map unat [0, 120, 40 :: u32]) < 2 ^ 32" by simp
  from conservation_of_time[OF h1 h2, of "[]"] h1 h2 show ?thesis by blast
qed

text \<open>
  Without the bound the claim fails: with five states of \<open>2^32 - 1\<close> each, two calls of
  \<open>2^32 - 2\<close> stay below the total, but the second addition wraps around and the machine
  accounts for \<open>2^32 - 4\<close> only.
\<close>

theorem conservation_of_time_counterexample:
  "sum_list (map unat [0xFFFFFFFE, 0xFFFFFFFE :: u32])
     < totalDuration (FlowingThreeLedsController 0xFFFFFFFF) \<and>
   (case runCalls Stateful_doControl
           (fst (Stateful_reset (FlowingThreeLedsController 0xFFFFFFFF) []))
           [0xFFFFFFFE, 0xFFFFFFFE]
           (snd (Stateful_reset (FlowingThreeLedsController 0xFFFFFFFF) [])) of
      Some (Inr (rs, c', out')) \<Rightarrow>
        map finished rs = [False, False] \<and> consumedTime c' = 4294967292 \<and>
        consumedTime c' \<noteq> sum_list (map unat [0xFFFFFFFE, 0xFFFFFFFE :: u32])
    | _ \<Rightarrow> False)"
  proof (rule conjI)
  show "sum_list (map unat [0xFFFFFFFE, 0xFFFFFFFE :: u32])
     < totalDuration (FlowingThreeLedsController 0xFFFFFFFF)"
    by (simp add: eval_defs catalog_defs upt_rec)
qed (simp add: eval_defs catalog_defs)

section \<open>C3: exhaustion and overshoot\<close>

text \<open>
  C3, as the code has it. From the reset state, when the elapsed times before the last call
  sum to less than the total of the state durations and the last call brings the sum to the
  total plus \<open>X\<close> (\<open>X = 0\<close> included, the sum below \<open>2^32\<close>), the calls before the last
  are unfinished and the last one is finished with remainder \<open>X\<close>, however the elapsed time
  is split over the calls. Every call after that is answered with a finished result whose
  remainder is the elapsed time of that call.
\<close>

theorem overshoot_remainder:
  assumes "sum_list (map unat ts) < totalDuration c"
    and "totalDuration c \<le> sum_list (map unat ts) + unat t"
    and "sum_list (map unat ts) + unat t < 2 ^ 32"
  shows "\<exists>rs r c' out'.
           runCalls Stateful_doControl (fst (Stateful_reset c out)) (ts @ [t])
               (snd (Stateful_reset c out))
             = Some (Inr (rs @ [r], c', out')) \<and>
           length rs = length ts \<and> (\<forall>x\<in>set rs. \<not> finished x) \<and> finished r \<and>
           unat (remainingTime r) = sum_list (map unat ts) + unat t - totalDuration c \<and>
           (\<forall>t2 out2. Stateful_doControl c' t2 out2 = Some (Inr (finishedWorkState t2, c', out2)))"
proof -
  from Stateful_reset_shape[of c out] obtain c0 evs0 where
    rs: "Stateful_reset c out = (c0, out @ evs0)"
    and f: "getStateDuration c0 = getStateDuration c" "maxStateIndex c0 = maxStateIndex c"
      "currentStateIndex c0 = 0" "timeSpentOnCurrentState c0 = 0" by blast
  have c0: "consumedTime c0 = 0" using f by (simp add: consumedTime_def)
  have td: "totalDuration c0 = totalDuration c"
    using f by (simp add: totalDuration_def stateDurations_def)
  have le0: "currentStateIndex c0 \<le> maxStateIndex c0" using f by simp
  from runCalls_Stateful_running[OF le0, of ts "out @ evs0"] assms c0 td obtain rs c1 evs1 where
    run: "runCalls Stateful_doControl c0 ts (out @ evs0) = Some (Inr (rs, c1, (out @ evs0) @ evs1))"
    and r: "length rs = length ts" "\<forall>r\<in>set rs. \<not> finished r"
      "consumedTime c1 = sum_list (map unat ts)"
      "getStateDuration c1 = getStateDuration c0" "maxStateIndex c1 = maxStateIndex c0"
      "currentStateIndex c1 \<le> maxStateIndex c1" by auto
  have td1: "totalDuration c1 = totalDuration c"
    using r f by (simp add: totalDuration_def stateDurations_def)
  have act: "currentStateIndex c1 < maxStateIndex c1"
  proof (rule ccontr)
    assume "\<not> currentStateIndex c1 < maxStateIndex c1"
    with r(6) have "currentStateIndex c1 = maxStateIndex c1" by simp
    from total_le_consumed_at_end[OF this] r(3) td1 assms(1) show False by simp
  qed
  have nov: "unat (timeSpentOnCurrentState c1) + unat t < 2 ^ 32"
    using unat_time_le_consumedTime[of c1] r(3) assms(3) by simp
  from Stateful_doControl_accounting[OF act nov, of "(out @ evs0) @ evs1"] obtain ws c2 evs2 where
    step: "Stateful_doControl c1 t ((out @ evs0) @ evs1)
             = Some (Inr (ws, c2, ((out @ evs0) @ evs1) @ evs2))"
    and mx: "maxStateIndex c2 = maxStateIndex c1"
    and fin: "finished ws = (totalDuration c1 \<le> consumedTime c1 + unat t)"
    and at_end: "finished ws = (currentStateIndex c2 = maxStateIndex c1)"
    and rem: "finished ws \<longrightarrow>
                unat (remainingTime ws) = consumedTime c1 + unat t - totalDuration c1"
    by blast
  have fw: "finished ws" using fin r(3) td1 assms(2) by simp
  then have "maxStateIndex c2 \<le> currentStateIndex c2" using at_end mx by simp
  then have after: "\<forall>t2 out2. Stateful_doControl c2 t2 out2
                      = Some (Inr (finishedWorkState t2, c2, out2))"
    by (simp add: Stateful_doControl_done)
  have "runCalls Stateful_doControl (fst (Stateful_reset c out)) (ts @ [t])
          (snd (Stateful_reset c out))
          = Some (Inr (rs @ [ws], c2, ((out @ evs0) @ evs1) @ evs2))"
    using runCalls_snoc[OF run step] rs by simp
  moreover have "unat (remainingTime ws) = sum_list (map unat ts) + unat t - totalDuration c"
    using rem fw r(3) td1 by simp
  ultimately show ?thesis using r(1,2) fw after
    by (intro exI[of _ rs] exI[of _ ws] exI[of _ c2]
          exI[of _ "((out @ evs0) @ evs1) @ evs2"]) simp
qed

theorem overshoot_remainder_witness:
  "sum_list (map unat [0, 50, 40 :: u32]) < totalDuration (FlowingThreeLedsController 20) \<and>
   totalDuration (FlowingThreeLedsController 20) \<le> sum_list (map unat [0, 50, 40 :: u32]) + unat (20 :: u32) \<and>
   sum_list (map unat [0, 50, 40 :: u32]) + unat (20 :: u32) < 2 ^ 32 \<and>
   (\<exists>rs r c' out'.
      runCalls Stateful_doControl (fst (Stateful_reset (FlowingThreeLedsController 20) []))
          ([0, 50, 40] @ [20]) (snd (Stateful_reset (FlowingThreeLedsController 20) []))
        = Some (Inr (rs @ [r], c', out')) \<and>
      length rs = length [0, 50, 40 :: u32] \<and> (\<forall>x\<in>set rs. \<not> finished x) \<and> finished r \<and>
      unat (remainingTime r) = 10 \<and>
      (\<forall>t2 out2. Stateful_doControl c' t2 out2 = Some (Inr (finishedWorkState t2, c', out2))))"
proof -
  have td: "totalDuration (FlowingThreeLedsController 20) = 100"
    by (simp add: eval_defs catalog_defs upt_rec)
  have h1: "sum_list (map unat [0, 50, 40 :: u32]) < totalDuration (FlowingThreeLedsController 20)"
    by (simp add: td)
  have h2: "totalDuration (FlowingThreeLedsController 20)
              \<le> sum_list (map unat [0, 50, 40 :: u32]) + unat (20 :: u32)"
    by (simp add: td)
  have h3: "sum_list (map unat [0, 50, 40 :: u32]) + unat (20 :: u32) < 2 ^ 32" by simp
  have x: "sum_list (map unat [0, 50, 40 :: u32]) + unat (20 :: u32)
             - totalDuration (FlowingThreeLedsController 20) = 10"
    by (simp add: td)
  from overshoot_remainder[OF h1 h2 h3, of "[]"] h1 h2 h3 show ?thesis
    unfolding x by blast
qed

text \<open>
  A machine that has finished answers every later call with a finished result whose
  remainder is the elapsed time of that call alone. So the claim fails when the excess is
  split over two calls that both arrive after the end: with a total of 100, the calls 104
  and 6 end with remainder 6, the single call 110 with remainder 10.
\<close>

theorem overshoot_remainder_counterexample:
  "totalDuration (FlowingThreeLedsController 20) = 100 \<and>
   sum_list (map unat [104, 6 :: u32]) = 100 + 10 \<and>
   (case runCalls Stateful_doControl (fst (Stateful_reset (FlowingThreeLedsController 20) []))
           [104, 6] (snd (Stateful_reset (FlowingThreeLedsController 20) [])) of
      Some (Inr (rs, c', out')) \<Rightarrow>
        map finished rs = [True, True] \<and> map remainingTime rs = [4, 6] \<and>
        remainingTime (last rs) \<noteq> 10
    | _ \<Rightarrow> False) \<and>
   (case runCalls Stateful_doControl (fst (Stateful_reset (FlowingThreeLedsController 20) []))
           [110] (snd (Stateful_reset (FlowingThreeLedsController 20) [])) of
      Some (Inr (rs, c', out')) \<Rightarrow> map remainingTime rs = [10]
    | _ \<Rightarrow> False)"
  by (simp add: eval_defs catalog_defs upt_rec)

section \<open>C4: the repeater and its single machine\<close>

lemma advance_done: "stateCount f \<le> currentState f \<Longrightarrow> advance f t = (Done t, f)"
  by (simp add: advance_def)

lemma advance_active:
  assumes "currentState f < stateCount f"
    and "advanceWhile (stateDuration f) (stateCount f) (timeInState f + t) (currentState f)
           (stateDuration f (currentState f)) = (t', i', d')"
  shows "advance f t =
           (if stateCount f \<le> i' then Done t' else NotDone,
            f\<lparr>currentState := i', timeInState := t'\<rparr>)"
  using assms by (simp add: advance_def)

lemma of_nat_unat_u8: "(of_nat (unat (i::u8)) :: u8) = i"
  by simp

lemma single_loop:
  fixes dur :: "u8 \<Rightarrow> u32" and N i :: u8
  assumes durF: "durF = (\<lambda>j. dur (of_nat (j mod unat N)))"
    and k: "k < m"
    and loop: "advanceStates dur N t i d = Some (t', i', d')"
    and i: "i < N"
  shows "i' \<le> N \<and>
         advanceWhile durF (m * unat N) t (k * unat N + unat i) d =
           (if i' < N then (t', k * unat N + unat i', d')
            else advanceWhile durF (m * unat N) t' (k * unat N + unat i')
                   (if k * unat N + unat i' < m * unat N then dur 0 else 0))"
  using loop i
proof (induction "unat N - unat i" arbitrary: t i d)
  case 0
  then show ?case by (simp add: word_less_nat_alt)
next
  case (Suc x)
  note lt = \<open>i < N\<close>
  have su: "unat (i + 1) = Suc (unat i)" using lt by (rule unat_succ)
  have iN: "unat i < unat N" using lt by (simp add: word_less_nat_alt)
  have "k * unat N + unat i < k * unat N + unat N" using iN by simp
  also have "\<dots> = (k + 1) * unat N" by simp
  also have "\<dots> \<le> m * unat N" using k by (intro mult_le_mono1) simp
  finally have JNF: "k * unat N + unat i < m * unat N" .
  show ?case
  proof (cases "d \<le> t")
    case False
    then have c: "advanceStates dur N t i d = Some (t, i, d)"
      by (subst advanceStates.simps) simp
    from False have f: "advanceWhile durF (m * unat N) t (k * unat N + unat i) d
                          = (t, k * unat N + unat i, d)"
      by (subst advanceWhile.simps) simp
    from c Suc.prems(1) have "t' = t" "i' = i" "d' = d" by simp_all
    with f lt show ?thesis by simp
  next
    case True
    let ?d1 = "if i + 1 < N then dur (i + 1) else 0"
    from True lt Suc.prems(1)
    have c: "advanceStates dur N (t - d) (i + 1) ?d1 = Some (t', i', d')"
      by (subst (asm) advanceStates.simps) simp
    from True JNF
    have f: "advanceWhile durF (m * unat N) t (k * unat N + unat i) d =
               advanceWhile durF (m * unat N) (t - d) (k * unat N + unat (i + 1))
                 (if k * unat N + unat (i + 1) < m * unat N
                  then durF (k * unat N + unat (i + 1)) else 0)"
      by (subst advanceWhile.simps) (simp add: su)
    show ?thesis
    proof (cases "i + 1 < N")
      case l1: True
      then have i1: "unat (i + 1) < unat N" by (simp add: word_less_nat_alt)
      have "k * unat N + unat (i + 1) < k * unat N + unat N" using i1 by simp
      also have "\<dots> = (k + 1) * unat N" by simp
      also have "\<dots> \<le> m * unat N" using k by (intro mult_le_mono1) simp
      finally have J1: "k * unat N + unat (i + 1) < m * unat N" .
      have "(k * unat N + unat (i + 1)) mod unat N = unat (i + 1)" using i1 by simp
      then have dF: "durF (k * unat N + unat (i + 1)) = dur (i + 1)"
        by (simp only: durF of_nat_unat_u8)
      have x: "x = unat N - unat (i + 1)" using Suc.hyps(2) su by simp
      from l1 have c': "advanceStates dur N (t - d) (i + 1) (dur (i + 1)) = Some (t', i', d')"
        using c by simp
      from Suc.hyps(1)[OF x c' l1] f J1 dF show ?thesis by simp
    next
      case l1: False
      then have res: "advanceStates dur N (t - d) (i + 1) 0 = Some (t - d, i + 1, 0)"
        by (subst advanceStates.simps) simp
      with c l1 have e: "t' = t - d" "i' = i + 1" "d' = 0" by simp_all
      have iN1: "i + 1 = N"
      proof -
        have "unat (i + 1) \<le> unat N" using su iN by simp
        moreover have "\<not> unat (i + 1) < unat N" using l1 by (simp add: word_less_nat_alt)
        ultimately have "unat (i + 1) = unat N" by simp
        then show ?thesis by (simp add: word_unat_eq_iff)
      qed
      have "(k * unat N + unat (i + 1)) mod unat N = 0" using iN1 by simp
      then have dF: "durF (k * unat N + unat (i + 1)) = dur 0"
        by (simp only: durF) simp
      from f e iN1 dF show ?thesis by simp
    qed
  qed
qed

lemma machine_loop:
  fixes dur :: "u8 \<Rightarrow> u32" and N i :: u8
  assumes "advanceStates dur N t i d = Some (t', i', d')"
  shows "advanceWhile (\<lambda>j. dur (of_nat j)) (unat N) t (unat i) d = (t', unat i', d')"
  using assms
proof (induction "unat N - unat i" arbitrary: t i d)
  case 0
  then have n: "\<not> i < N" by (simp add: word_less_nat_alt)
  then have "advanceStates dur N t i d = Some (t, i, d)"
    by (subst advanceStates.simps) simp
  with "0.prems" have e: "t' = t" "i' = i" "d' = d" by simp_all
  from n have "advanceWhile (\<lambda>j. dur (of_nat j)) (unat N) t (unat i) d = (t, unat i, d)"
    by (subst advanceWhile.simps) (simp add: word_less_nat_alt)
  with e show ?case by simp
next
  case (Suc x)
  then have lt: "i < N" by (simp add: word_less_nat_alt)
  have su: "unat (i + 1) = Suc (unat i)" using lt by (rule unat_succ)
  show ?case
  proof (cases "d \<le> t")
    case False
    then have "advanceStates dur N t i d = Some (t, i, d)"
      by (subst advanceStates.simps) simp
    with Suc.prems have e: "t' = t" "i' = i" "d' = d" by simp_all
    from False have "advanceWhile (\<lambda>j. dur (of_nat j)) (unat N) t (unat i) d = (t, unat i, d)"
      by (subst advanceWhile.simps) simp
    with e show ?thesis by simp
  next
    case True
    let ?d1 = "if i + 1 < N then dur (i + 1) else 0"
    from True lt Suc.prems
    have c: "advanceStates dur N (t - d) (i + 1) ?d1 = Some (t', i', d')"
      by (subst (asm) advanceStates.simps) simp
    have x: "x = unat N - unat (i + 1)" using Suc.hyps(2) su by simp
    have o: "(of_nat (Suc (unat i)) :: u8) = i + 1" by simp
    have d1: "(if unat i + 1 < unat N then dur (of_nat (unat i + 1)) else 0) = ?d1"
      using su o by (simp add: word_less_nat_alt add.commute)
    from True lt
    have "advanceWhile (\<lambda>j. dur (of_nat j)) (unat N) t (unat i) d =
            advanceWhile (\<lambda>j. dur (of_nat j)) (unat N) (t - d) (unat i + 1)
              (if unat i + 1 < unat N then dur (of_nat (unat i + 1)) else 0)"
      by (subst advanceWhile.simps) (simp add: word_less_nat_alt)
    also have "\<dots> = advanceWhile (\<lambda>j. dur (of_nat j)) (unat N) (t - d) (unat (i + 1)) ?d1"
      using d1 su by simp
    also have "\<dots> = (t', unat i', d')" using Suc.hyps(1)[OF x c] .
    finally show ?thesis .
  qed
qed

lemma machineOf_advance:
  assumes res: "Stateful_doControl c t out = Some (Inr (ws, c', out'))"
  shows "advance (machineOf c) t = (outcomeOf ws, machineOf c')"
proof (cases "maxStateIndex c \<le> currentStateIndex c")
  case True
  from Stateful_doControl_done[OF True, of t out] res
  have "ws = finishedWorkState t" "c' = c" by simp_all
  moreover have "stateCount (machineOf c) \<le> currentState (machineOf c)"
    using True by (simp add: machineOf_def word_le_nat_alt)
  ultimately show ?thesis
    by (simp add: advance_done outcomeOf_def finishedWorkState_def)
next
  case False
  then have act: "currentStateIndex c < maxStateIndex c" by simp
  obtain t' i' d' where loop:
    "advanceStates (getStateDuration c) (maxStateIndex c) (timeSpentOnCurrentState c + t)
       (currentStateIndex c) (getStateDuration c (currentStateIndex c)) = Some (t', i', d')"
    using advanceStates_total by (metis prod_cases3)
  from Stateful_doControl_result[OF act loop res]
  have r: "currentStateIndex c' = i'" "timeSpentOnCurrentState c' = t'"
    "getStateDuration c' = getStateDuration c" "maxStateIndex c' = maxStateIndex c"
    "finished ws = (maxStateIndex c \<le> i')"
    "remainingTime ws = (if maxStateIndex c \<le> i' then t' else 0)" by simp_all
  have a: "currentState (machineOf c) < stateCount (machineOf c)"
    using act by (simp add: machineOf_def word_less_nat_alt)
  have l: "advanceWhile (stateDuration (machineOf c)) (stateCount (machineOf c))
             (timeInState (machineOf c) + t) (currentState (machineOf c))
             (stateDuration (machineOf c) (currentState (machineOf c))) = (t', unat i', d')"
    using machine_loop[OF loop] by (simp add: machineOf_def)
  from advance_active[OF a l] r show ?thesis
    by (simp add: machineOf_def outcomeOf_def word_le_nat_alt)
qed


lemma repeater_step:
  assumes rel: "inLockstep l f"
  shows "\<exists>ws l' evs.
           Looping_doControl l t out = Some (Inr (ws, l', out @ evs)) \<and>
           fst (advance f t) = outcomeOf ws \<and>
           maxLoopCount l' = maxLoopCount l \<and>
           maxStateIndex (controller l') = maxStateIndex (controller l) \<and>
           getStateDuration (controller l') = getStateDuration (controller l) \<and>
           inLockstep l' (snd (advance f t))"
  using assms
proof (induction "unat (maxLoopCount l) - unat (currentLoopCount l)" arbitrary: l t out f)
  case 0
  then have dn: "maxLoopCount l \<le> currentLoopCount l" by (simp add: word_le_nat_alt)
  from dn have nk: "\<not> unat (currentLoopCount l) < unat (maxLoopCount l)"
    by (simp add: word_le_nat_alt)
  have L: "Looping_doControl l t out = Some (Inr (finishedWorkState t, l, out @ []))"
    using dn by (subst Looping_doControl.simps) simp
  have fd: "stateCount f \<le> currentState f"
    using "0.prems"(1) nk by (auto simp: inLockstep_def Let_def split: if_splits)
  have F: "advance f t = (Done t, f)" using fd by (rule advance_done)
  have "outcomeOf (finishedWorkState t) = Done t"
    by (simp add: outcomeOf_def finishedWorkState_def)
  with L F "0.prems"(1) show ?case
    by (intro exI[of _ "finishedWorkState t"] exI[of _ l] exI[of _ "[]"]) simp
next
  case (Suc x)
  let ?c = "controller l" and ?N = "maxStateIndex (controller l)"
  let ?dur = "getStateDuration (controller l)"
  let ?n = "unat ?N" and ?m = "unat (maxLoopCount l)" and ?k = "unat (currentLoopCount l)"
  let ?durF = "\<lambda>j. ?dur (of_nat (j mod ?n))"
  have km: "?k < ?m" using Suc.hyps(2) by simp
  then have lt: "currentLoopCount l < maxLoopCount l" by (simp add: word_less_nat_alt)
  then have nle: "\<not> maxLoopCount l \<le> currentLoopCount l" by simp
  have suk: "unat (currentLoopCount l + 1) = Suc ?k" using lt by (rule unat_succ)
  note rel = Suc.prems(1)
  have NF: "stateCount f = ?m * ?n" and dF: "stateDuration f = ?durF"
    using rel by (simp_all add: inLockstep_def Let_def)
  from Stateful_doControl_total[of ?c t out] obtain ws c1 evs1 where
    inner: "Stateful_doControl ?c t out = Some (Inr (ws, c1, out @ evs1))" by blast
  from Stateful_reset_shape[of c1 "out @ evs1"] obtain c2 evs2 where
    rs: "Stateful_reset c1 (out @ evs1) = (c2, (out @ evs1) @ evs2)"
    and c2: "getStateDuration c2 = getStateDuration c1" "maxStateIndex c2 = maxStateIndex c1"
      "currentStateIndex c2 = 0" "timeSpentOnCurrentState c2 = 0" by blast
  let ?l1 = "l\<lparr>controller := c1, currentLoopCount := currentLoopCount l + 1\<rparr>"
  let ?l2 = "?l1\<lparr>controller := c2\<rparr>"
  have x: "x = unat (maxLoopCount ?l2) - unat (currentLoopCount ?l2)"
    using Suc.hyps(2) suk by simp
  show ?case
  proof (cases "?n = 0")
    case n0: True
    then have N0: "?N = 0" by (simp add: unat_eq_0)
    have cd: "?N \<le> currentStateIndex ?c" using N0 by simp
    from Stateful_doControl_done[OF cd, of t out] inner
    have i1: "ws = finishedWorkState t" "c1 = ?c" "evs1 = []" by simp_all
    have fd: "stateCount f \<le> currentState f" using NF n0 by simp
    have F: "advance f t = (Done t, f)" using fd by (rule advance_done)
    have ow: "outcomeOf ws = Done t" using i1 by (simp add: outcomeOf_def finishedWorkState_def)
    show ?thesis
    proof (cases "maxLoopCount l \<le> currentLoopCount l + 1")
      case True
      then have L: "Looping_doControl l t out = Some (Inr (ws, ?l1, out @ evs1))"
        using nle inner i1 by (subst Looping_doControl.simps) (simp add: finishedWorkState_def)
      have "inLockstep ?l1 f" using rel n0 i1 by (simp add: inLockstep_def Let_def)
      with L F ow i1 show ?thesis
        by (intro exI[of _ "ws"] exI[of _ "?l1"] exI[of _ "evs1"]) simp
    next
      case False
      then have L: "Looping_doControl l t out =
                      Looping_doControl ?l2 (remainingTime ws) ((out @ evs1) @ evs2)"
        using nle inner i1 rs by (subst Looping_doControl.simps) (simp add: finishedWorkState_def)
      have rel2: "inLockstep ?l2 f" using rel n0 i1 c2 by (simp add: inLockstep_def Let_def)
      have rt: "remainingTime ws = t" using i1 by (simp add: finishedWorkState_def)
      from Suc.hyps(1)[OF x rel2, of t "(out @ evs1) @ evs2"]
      obtain wsa la evsa where
        IH: "Looping_doControl ?l2 t ((out @ evs1) @ evs2)
               = Some (Inr (wsa, la, ((out @ evs1) @ evs2) @ evsa))"
          "fst (advance f t) = outcomeOf wsa"
          "maxLoopCount la = maxLoopCount ?l2"
          "maxStateIndex (controller la) = maxStateIndex (controller ?l2)"
          "getStateDuration (controller la) = getStateDuration (controller ?l2)"
          "inLockstep la (snd (advance f t))" by blast
      have "Looping_doControl l t out = Some (Inr (wsa, la, out @ (evs1 @ evs2 @ evsa)))"
        using L IH(1) rt by simp
      then show ?thesis using IH c2 i1
        by (intro exI[of _ "wsa"] exI[of _ "la"] exI[of _ "evs1 @ evs2 @ evsa"]) simp
    qed
  next
    case npos: False
    then have n0: "0 < ?n" by simp
    from rel km npos have i: "unat (currentStateIndex ?c) < ?n"
      and J: "currentState f = ?k * ?n + unat (currentStateIndex ?c)"
      and tm: "timeInState f = timeSpentOnCurrentState ?c"
      by (simp_all add: inLockstep_def Let_def)
    have cact: "currentStateIndex ?c < ?N" using i by (simp add: word_less_nat_alt)
    have "?k * ?n + unat (currentStateIndex ?c) < ?k * ?n + ?n" using i by simp
    also have "\<dots> = (?k + 1) * ?n" by simp
    also have "\<dots> \<le> ?m * ?n" using km by (intro mult_le_mono1) simp
    finally have fact: "currentState f < stateCount f" using J NF by simp
    obtain t' i' d' where cloop:
      "advanceStates ?dur ?N (timeSpentOnCurrentState ?c + t) (currentStateIndex ?c)
         (?dur (currentStateIndex ?c)) = Some (t', i', d')"
      using advanceStates_total by (metis prod_cases3)
    from Stateful_doControl_result[OF cact cloop inner]
    have r1: "currentStateIndex c1 = i'" "timeSpentOnCurrentState c1 = t'"
      "getStateDuration c1 = ?dur" "maxStateIndex c1 = ?N"
      "finished ws = (?N \<le> i')" "remainingTime ws = (if ?N \<le> i' then t' else 0)"
      by simp_all
    have "(?k * ?n + unat (currentStateIndex ?c)) mod ?n = unat (currentStateIndex ?c)"
      using i by simp
    then have dJ: "?durF (currentState f) = ?dur (currentStateIndex ?c)"
      by (simp only: J of_nat_unat_u8)
    from single_loop[OF refl km cloop cact] have i'N: "i' \<le> ?N"
      and fl: "advanceWhile ?durF (?m * ?n) (timeSpentOnCurrentState ?c + t)
                 (?k * ?n + unat (currentStateIndex ?c)) (?dur (currentStateIndex ?c)) =
               (if i' < ?N then (t', ?k * ?n + unat i', d')
                else advanceWhile ?durF (?m * ?n) t' (?k * ?n + unat i')
                       (if ?k * ?n + unat i' < ?m * ?n then ?dur 0 else 0))" by blast+
    have floop0: "advanceWhile (stateDuration f) (stateCount f) (timeInState f + t)
                    (currentState f) (stateDuration f (currentState f)) =
               (if i' < ?N then (t', ?k * ?n + unat i', d')
                else advanceWhile ?durF (?m * ?n) t' (?k * ?n + unat i')
                       (if ?k * ?n + unat i' < ?m * ?n then ?dur 0 else 0))"
      using fl dJ by (simp only: NF dF tm J)
    show ?thesis
    proof (cases "i' < ?N")
      case True
      then have nf: "\<not> ?N \<le> i'" by simp
      have L: "Looping_doControl l t out = Some (Inr (ws, l\<lparr>controller := c1\<rparr>, out @ evs1))"
        using nle inner r1 nf by (subst Looping_doControl.simps) simp
      have floop: "advanceWhile (stateDuration f) (stateCount f) (timeInState f + t)
                    (currentState f) (stateDuration f (currentState f)) = (t', ?k * ?n + unat i', d')"
        using floop0 True by simp
      have i'n: "unat i' < ?n" using True by (simp add: word_less_nat_alt)
      have "?k * ?n + unat i' < ?k * ?n + ?n" using i'n by simp
      also have "\<dots> = (?k + 1) * ?n" by simp
      also have "\<dots> \<le> ?m * ?n" using km by (intro mult_le_mono1) simp
      finally have J'lt: "\<not> stateCount f \<le> ?k * ?n + unat i'" using NF by simp
      from advance_active[OF fact floop] J'lt
      have F: "advance f t = (NotDone, f\<lparr>currentState := ?k * ?n + unat i', timeInState := t'\<rparr>)"
        by simp
      have ow: "outcomeOf ws = NotDone" using r1 nf by (simp add: outcomeOf_def)
      have "inLockstep (l\<lparr>controller := c1\<rparr>)
              (f\<lparr>currentState := ?k * ?n + unat i', timeInState := t'\<rparr>)"
        using r1 NF dF km npos i'n by (simp add: inLockstep_def Let_def)
      with L F ow r1 show ?thesis
        by (intro exI[of _ "ws"] exI[of _ "l\<lparr>controller := c1\<rparr>"] exI[of _ "evs1"]) simp
    next
      case False
      with i'N have i'e: "i' = ?N" by simp
      then have fin: "finished ws" and rem: "remainingTime ws = t'" using r1 by simp_all
      have ow: "outcomeOf ws = Done t'" using fin rem by (simp add: outcomeOf_def)
      have J'e: "?k * ?n + unat i' = (?k + 1) * ?n" using i'e by simp
      have floop1: "advanceWhile (stateDuration f) (stateCount f) (timeInState f + t)
                    (currentState f) (stateDuration f (currentState f)) =
                 advanceWhile ?durF (?m * ?n) t' ((?k + 1) * ?n)
                       (if (?k + 1) * ?n < ?m * ?n then ?dur 0 else 0)"
        using floop0 False by (simp only: J'e if_False)
      show ?thesis
      proof (cases "maxLoopCount l \<le> currentLoopCount l + 1")
        case True
        then have k1: "?m = ?k + 1" using km suk by (simp add: word_le_nat_alt)
        have L: "Looping_doControl l t out = Some (Inr (ws, ?l1, out @ evs1))"
          using nle inner fin True by (subst Looping_doControl.simps) simp
        have "advanceWhile ?durF (?m * ?n) t' ((?k + 1) * ?n)
                (if (?k + 1) * ?n < ?m * ?n then ?dur 0 else 0) = (t', (?k + 1) * ?n, 0)"
          using k1 by (subst advanceWhile.simps) simp
        with floop1 have floop: "advanceWhile (stateDuration f) (stateCount f) (timeInState f + t)
                    (currentState f) (stateDuration f (currentState f)) = (t', (?k + 1) * ?n, 0)"
          by simp
        from advance_active[OF fact floop] NF k1
        have F: "advance f t = (Done t', f\<lparr>currentState := (?k + 1) * ?n, timeInState := t'\<rparr>)"
          by simp
        have "inLockstep ?l1 (f\<lparr>currentState := (?k + 1) * ?n, timeInState := t'\<rparr>)"
          using r1 NF dF npos suk k1 by (simp add: inLockstep_def Let_def)
        with L F ow r1 show ?thesis
          by (intro exI[of _ "ws"] exI[of _ "?l1"] exI[of _ "evs1"]) simp
      next
        case gt: False
        then have k1: "?k + 1 < ?m" using suk by (simp add: word_le_nat_alt)
        have L: "Looping_doControl l t out =
                   Looping_doControl ?l2 t' ((out @ evs1) @ evs2)"
          using nle inner fin rem gt rs by (subst Looping_doControl.simps) simp
        have "(?k + 1) * ?n + 0 < (?k + 1) * ?n + ?n" using n0 by simp
        also have "\<dots> = (?k + 2) * ?n" by simp
        also have "\<dots> \<le> ?m * ?n" using k1 by (intro mult_le_mono1) simp
        finally have J'lt: "(?k + 1) * ?n < ?m * ?n" by simp
        let ?f2 = "f\<lparr>currentState := (?k + 1) * ?n, timeInState := 0\<rparr>"
        have "((?k + 1) * ?n) mod ?n = 0" by simp
        then have dJ': "?durF ((?k + 1) * ?n) = ?dur 0" by (simp only:) simp
        have rel2: "inLockstep ?l2 ?f2"
          using NF dF c2 r1 npos suk k1 n0 by (simp add: inLockstep_def Let_def)
        from Suc.hyps(1)[OF x rel2, of t' "(out @ evs1) @ evs2"]
        obtain wsa la evsa where
          IH: "Looping_doControl ?l2 t' ((out @ evs1) @ evs2)
                 = Some (Inr (wsa, la, ((out @ evs1) @ evs2) @ evsa))"
            "fst (advance ?f2 t') = outcomeOf wsa"
            "maxLoopCount la = maxLoopCount ?l2"
            "maxStateIndex (controller la) = maxStateIndex (controller ?l2)"
            "getStateDuration (controller la) = getStateDuration (controller ?l2)"
            "inLockstep la (snd (advance ?f2 t'))" by blast
        obtain t'' J'' d'' where
          cont: "advanceWhile ?durF (?m * ?n) t' ((?k + 1) * ?n) (?dur 0) = (t'', J'', d'')"
          by (metis prod_cases3)
        have floop: "advanceWhile (stateDuration f) (stateCount f) (timeInState f + t)
                    (currentState f) (stateDuration f (currentState f)) = (t'', J'', d'')"
          using floop1 J'lt cont by simp
        have f2act: "currentState ?f2 < stateCount ?f2" using J'lt NF by simp
        have f2loop: "advanceWhile (stateDuration ?f2) (stateCount ?f2) (timeInState ?f2 + t')
                        (currentState ?f2) (stateDuration ?f2 (currentState ?f2)) = (t'', J'', d'')"
          using cont dJ' by (simp add: NF dF)
        have "advance f t = advance ?f2 t'"
          using advance_active[OF fact floop] advance_active[OF f2act f2loop] by simp
        moreover have "Looping_doControl l t out
                         = Some (Inr (wsa, la, out @ (evs1 @ evs2 @ evsa)))"
          using L IH(1) by simp
        ultimately show ?thesis using IH c2 r1
          by (intro exI[of _ "wsa"] exI[of _ "la"] exI[of _ "evs1 @ evs2 @ evsa"]) simp
      qed
    qed
  qed
qed

lemma repeater_run:
  assumes "inLockstep l f"
  shows "\<exists>rs l' evs.
           runCalls Looping_doControl l ts out = Some (Inr (rs, l', out @ evs)) \<and>
           map outcomeOf rs = advanceCalls f ts"
  using assms
proof (induction ts arbitrary: l f out)
  case Nil
  show ?case by (intro exI[of _ "[]"] exI[of _ l] exI[of _ "[]"]) simp
next
  case (Cons t ts)
  from repeater_step[OF Cons.prems, of t out] obtain ws l1 evs1 where
    s: "Looping_doControl l t out = Some (Inr (ws, l1, out @ evs1))"
      "fst (advance f t) = outcomeOf ws"
    and rel1: "inLockstep l1 (snd (advance f t))" by blast
  from Cons.IH[OF rel1, of "out @ evs1"] obtain rs l' evs where
    r: "runCalls Looping_doControl l1 ts (out @ evs1) = Some (Inr (rs, l', (out @ evs1) @ evs))"
      "map outcomeOf rs = advanceCalls (snd (advance f t)) ts" by blast
  from s r show ?case
    by (intro exI[of _ "ws # rs"] exI[of _ l'] exI[of _ "evs1 @ evs"])
       (simp add: split_beta)
qed

text \<open>
  C4. A LoopingController with iteration count \<open>M\<close> around a machine of \<open>N\<close> states and
  the single Timed-State Machine of \<open>M * N\<close> states, in which the states from \<open>k * N\<close>
  up to \<open>(k + 1) * N\<close> have the durations of the wrapped machine, give from their reset
  states and for every list of elapsed times the same answers call by call: done with the
  same remainder, or not done. This holds for every \<open>M\<close> and \<open>N\<close>, the wrap-around of
  the time counter included; \<open>M = 0\<close>, \<open>M = 1\<close> and \<open>M = 3\<close> are instances. The single
  machine advances as every \<open>StatefulController\<close> of the code does: a call of
  \<open>doControl\<close> and a call of \<open>advance\<close> on the machine read from the controller give
  the same answer and the same next machine.
\<close>

theorem repeater_equivalence:
  "(\<exists>rs l' out'.
      runCalls Looping_doControl (fst (Looping_reset l out)) ts (snd (Looping_reset l out))
        = Some (Inr (rs, l', out')) \<and>
      map outcomeOf rs = advanceCalls (resetMachine (singleMachine l)) ts) \<and>
   stateCount (singleMachine l) = unat (maxLoopCount l) * unat (maxStateIndex (controller l)) \<and>
   (\<forall>k i. i < unat (maxStateIndex (controller l)) \<longrightarrow>
      stateDuration (singleMachine l) (k * unat (maxStateIndex (controller l)) + i) =
        getStateDuration (controller l) (of_nat i)) \<and>
   (\<forall>c t out ws c' out'.
      Stateful_doControl c t out = Some (Inr (ws, c', out')) \<longrightarrow>
      advance (machineOf c) t = (outcomeOf ws, machineOf c'))"
proof (intro conjI allI impI)
  from Looping_reset_shape[of l out] obtain l0 evs0 where
    l0: "Looping_reset l out = (l0, out @ evs0)" "maxLoopCount l0 = maxLoopCount l"
      "currentLoopCount l0 = 0"
      "getStateDuration (controller l0) = getStateDuration (controller l)"
      "maxStateIndex (controller l0) = maxStateIndex (controller l)"
      "currentStateIndex (controller l0) = 0" "timeSpentOnCurrentState (controller l0) = 0"
    by blast
  have rel: "inLockstep l0 (resetMachine (singleMachine l))"
    using l0 by (auto simp: inLockstep_def singleMachine_def resetMachine_def Let_def)
  from repeater_run[OF rel, of ts "out @ evs0"] l0(1)
  show "\<exists>rs l' out'.
      runCalls Looping_doControl (fst (Looping_reset l out)) ts (snd (Looping_reset l out))
        = Some (Inr (rs, l', out')) \<and>
      map outcomeOf rs = advanceCalls (resetMachine (singleMachine l)) ts" by auto
next
  show "stateCount (singleMachine l) = unat (maxLoopCount l) * unat (maxStateIndex (controller l))"
    by (simp add: singleMachine_def Let_def)
next
  fix k i
  assume "i < unat (maxStateIndex (controller l))"
  then show "stateDuration (singleMachine l) (k * unat (maxStateIndex (controller l)) + i) =
        getStateDuration (controller l) (of_nat i)"
    by (simp add: singleMachine_def Let_def)
next
  fix c t out ws c' out'
  assume "Stateful_doControl c t out = Some (Inr (ws, c', out'))"
  then show "advance (machineOf c) t = (outcomeOf ws, machineOf c')"
    by (rule machineOf_advance)
qed

theorem repeater_equivalence_witness:
  "(\<exists>rs l' out'.
      runCalls Looping_doControl
          (fst (Looping_reset (newLoopingController (FlowingThreeLedsController 100) 3) []))
          [0, 250, 1300, 400]
          (snd (Looping_reset (newLoopingController (FlowingThreeLedsController 100) 3) []))
        = Some (Inr (rs, l', out')) \<and>
      map outcomeOf rs = [NotDone, NotDone, Done 50, Done 400]) \<and>
   stateCount (singleMachine (newLoopingController (FlowingThreeLedsController 100) 3)) = 15 \<and>
   4 < unat (maxStateIndex (controller (newLoopingController (FlowingThreeLedsController 100) 3))) \<and>
   stateDuration (singleMachine (newLoopingController (FlowingThreeLedsController 100) 3))
       (2 * unat (maxStateIndex (controller (newLoopingController (FlowingThreeLedsController 100) 3))) + 4)
     = 100 \<and>
   (\<exists>rs l' out'.
      runCalls Looping_doControl
          (fst (Looping_reset (newLoopingController (FlowingThreeLedsController 100) 0) []))
          [0, 250]
          (snd (Looping_reset (newLoopingController (FlowingThreeLedsController 100) 0) []))
        = Some (Inr (rs, l', out')) \<and>
      map outcomeOf rs = [Done 0, Done 250]) \<and>
   (\<exists>rs l' out'.
      runCalls Looping_doControl
          (fst (Looping_reset (newLoopingController (FlowingThreeLedsController 100) 1) []))
          [0, 250, 300]
          (snd (Looping_reset (newLoopingController (FlowingThreeLedsController 100) 1) []))
        = Some (Inr (rs, l', out')) \<and>
      map outcomeOf rs = [NotDone, NotDone, Done 50]) \<and>
   (\<exists>ws c' out'.
      Stateful_doControl (fst (Stateful_reset (FlowingThreeLedsController 100) [])) 250
          (snd (Stateful_reset (FlowingThreeLedsController 100) []))
        = Some (Inr (ws, c', out')) \<and>
      advance (machineOf (fst (Stateful_reset (FlowingThreeLedsController 100) []))) 250
        = (outcomeOf ws, machineOf c') \<and>
      outcomeOf ws = NotDone \<and> currentState (machineOf c') = 2 \<and> timeInState (machineOf c') = 50)"
proof -
  let ?L3 = "newLoopingController (FlowingThreeLedsController 100) 3"
  let ?L0 = "newLoopingController (FlowingThreeLedsController 100) 0"
  let ?L1 = "newLoopingController (FlowingThreeLedsController 100) 1"
  let ?c0 = "fst (Stateful_reset (FlowingThreeLedsController 100) [])"
  let ?o0 = "snd (Stateful_reset (FlowingThreeLedsController 100) [])"
  note T3 = repeater_equivalence[of ?L3 "[]" "[0, 250, 1300, 400]"]
  note T0 = repeater_equivalence[of ?L0 "[]" "[0, 250]"]
  note T1 = repeater_equivalence[of ?L1 "[]" "[0, 250, 300]"]
  have e3: "advanceCalls (resetMachine (singleMachine ?L3)) [0, 250, 1300, 400]
              = [NotDone, NotDone, Done 50, Done 400]"
    by (simp add: machine_defs Let_def eval_defs catalog_defs)
  have e0: "advanceCalls (resetMachine (singleMachine ?L0)) [0, 250] = [Done 0, Done 250]"
    by (simp add: machine_defs Let_def eval_defs catalog_defs)
  have e1: "advanceCalls (resetMachine (singleMachine ?L1)) [0, 250, 300]
              = [NotDone, NotDone, Done 50]"
    by (simp add: machine_defs Let_def eval_defs catalog_defs)
  have n: "unat (maxStateIndex (controller ?L3)) = 5"
    by (simp add: eval_defs catalog_defs)
  have d: "getStateDuration (controller ?L3) (of_nat 4) = 100"
    by (simp add: eval_defs catalog_defs)
  have a: "\<exists>rs l' out'.
      runCalls Looping_doControl (fst (Looping_reset ?L3 [])) [0, 250, 1300, 400]
          (snd (Looping_reset ?L3 [])) = Some (Inr (rs, l', out')) \<and>
      map outcomeOf rs = [NotDone, NotDone, Done 50, Done 400]"
    using T3[THEN conjunct1] unfolding e3 .
  have m3: "unat (maxLoopCount ?L3) = 3" by (simp add: eval_defs)
  have "stateCount (singleMachine ?L3) = unat (maxLoopCount ?L3) * unat (maxStateIndex (controller ?L3))"
    using T3 by blast
  then have b: "stateCount (singleMachine ?L3) = 15" unfolding m3 n by simp
  have c: "4 < unat (maxStateIndex (controller ?L3))" using n by simp
  from T3 c have "stateDuration (singleMachine ?L3) (2 * unat (maxStateIndex (controller ?L3)) + 4)
          = getStateDuration (controller ?L3) (of_nat 4)" by blast
  with d have dd: "stateDuration (singleMachine ?L3) (2 * unat (maxStateIndex (controller ?L3)) + 4)
          = 100" by simp
  have f: "\<exists>rs l' out'.
      runCalls Looping_doControl (fst (Looping_reset ?L0 [])) [0, 250]
          (snd (Looping_reset ?L0 [])) = Some (Inr (rs, l', out')) \<and>
      map outcomeOf rs = [Done 0, Done 250]"
    using T0[THEN conjunct1] unfolding e0 .
  have g: "\<exists>rs l' out'.
      runCalls Looping_doControl (fst (Looping_reset ?L1 [])) [0, 250, 300]
          (snd (Looping_reset ?L1 [])) = Some (Inr (rs, l', out')) \<and>
      map outcomeOf rs = [NotDone, NotDone, Done 50]"
    using T1[THEN conjunct1] unfolding e1 .
  from Stateful_doControl_total[of ?c0 250 ?o0] obtain ws c' evs where
    s: "Stateful_doControl ?c0 250 ?o0 = Some (Inr (ws, c', ?o0 @ evs))" by blast
  from T3 s have m: "advance (machineOf ?c0) 250 = (outcomeOf ws, machineOf c')" by blast
  have "advance (machineOf ?c0) 250 =
          (NotDone, (machineOf ?c0)\<lparr>currentState := 2, timeInState := 50\<rparr>)"
    by (simp add: machine_defs Let_def eval_defs catalog_defs)
  with m have mm: "(outcomeOf ws, machineOf c') =
          (NotDone, (machineOf ?c0)\<lparr>currentState := 2, timeInState := 50\<rparr>)" by simp
  then have v1: "outcomeOf ws = NotDone" by simp
  from mm have "machineOf c' = (machineOf ?c0)\<lparr>currentState := 2, timeInState := 50\<rparr>" by simp
  then have "currentState (machineOf c') = 2 \<and> timeInState (machineOf c') = 50"
    by (simp only:) simp
  with v1 have v: "outcomeOf ws = NotDone" "currentState (machineOf c') = 2"
    "timeInState (machineOf c') = 50" by simp_all
  from s m v have h: "\<exists>ws c' out'.
      Stateful_doControl ?c0 250 ?o0 = Some (Inr (ws, c', out')) \<and>
      advance (machineOf ?c0) 250 = (outcomeOf ws, machineOf c') \<and>
      outcomeOf ws = NotDone \<and> currentState (machineOf c') = 2 \<and> timeInState (machineOf c') = 50"
    by blast
  from a b c dd f g h show ?thesis by (intro conjI)
qed

section \<open>C5: the sequencer never finishes\<close>

lemma Stateful_doControl_static:
  assumes "Stateful_doControl c t out = Some (Inr (ws, c', out'))"
  shows "getStateDuration c' = getStateDuration c \<and> maxStateIndex c' = maxStateIndex c \<and>
         applyLedStates c' = applyLedStates c"
proof (cases "maxStateIndex c \<le> currentStateIndex c")
  case True
  from Stateful_doControl_done[OF True, of t out] assms show ?thesis by simp
next
  case False
  then have act: "currentStateIndex c < maxStateIndex c" by simp
  obtain t' i' d' where loop:
    "advanceStates (getStateDuration c) (maxStateIndex c) (timeSpentOnCurrentState c + t)
       (currentStateIndex c) (getStateDuration c (currentStateIndex c)) = Some (t', i', d')"
    using advanceStates_total by (metis prod_cases3)
  from Stateful_doControl_result[OF act loop assms] show ?thesis by simp
qed

lemma Looping_doControl_static:
  assumes "Looping_doControl l t out = Some (Inr (ws, l', out'))"
  shows "maxLoopCount l' = maxLoopCount l \<and>
         maxStateIndex (controller l') = maxStateIndex (controller l) \<and>
         getStateDuration (controller l') = getStateDuration (controller l)"
  using assms
proof (induction "unat (maxLoopCount l) - unat (currentLoopCount l)" arbitrary: l t out)
  case 0
  then have "maxLoopCount l \<le> currentLoopCount l" by (simp add: word_le_nat_alt)
  then have "Looping_doControl l t out = Some (Inr (finishedWorkState t, l, out))"
    by (subst Looping_doControl.simps) simp
  with "0.prems" show ?case by simp
next
  case (Suc k)
  then have lt: "currentLoopCount l < maxLoopCount l" by (simp add: word_less_nat_alt)
  then have nle: "\<not> maxLoopCount l \<le> currentLoopCount l" by simp
  from Stateful_doControl_total[of "controller l" t out] obtain ws1 c1 evs1 where
    inner: "Stateful_doControl (controller l) t out = Some (Inr (ws1, c1, out @ evs1))" by blast
  note st1 = Stateful_doControl_static[OF inner]
  show ?case
  proof (cases "finished ws1")
    case False
    with nle inner
    have "Looping_doControl l t out = Some (Inr (ws1, l\<lparr>controller := c1\<rparr>, out @ evs1))"
      by (subst Looping_doControl.simps) simp
    with Suc.prems st1 show ?thesis by auto
  next
    case True
    let ?l1 = "l\<lparr>controller := c1, currentLoopCount := currentLoopCount l + 1\<rparr>"
    show ?thesis
    proof (cases "maxLoopCount l \<le> currentLoopCount l + 1")
      case le: True
      with True nle inner
      have "Looping_doControl l t out = Some (Inr (ws1, ?l1, out @ evs1))"
        by (subst Looping_doControl.simps) simp
      with Suc.prems st1 show ?thesis by auto
    next
      case gt: False
      from Stateful_reset_shape[of c1 "out @ evs1"] obtain c2 evs2 where
        rs: "Stateful_reset c1 (out @ evs1) = (c2, (out @ evs1) @ evs2)"
        and c2: "getStateDuration c2 = getStateDuration c1" "maxStateIndex c2 = maxStateIndex c1"
        by blast
      let ?l2 = "?l1\<lparr>controller := c2\<rparr>"
      have rec: "Looping_doControl l t out =
                   Looping_doControl ?l2 (remainingTime ws1) ((out @ evs1) @ evs2)"
        using True nle inner gt rs by (subst Looping_doControl.simps) simp
      have k: "k = unat (maxLoopCount ?l2) - unat (currentLoopCount ?l2)"
        using Suc.hyps(2) unat_succ[OF lt] by simp
      from Suc.prems rec have
        "Looping_doControl ?l2 (remainingTime ws1) ((out @ evs1) @ evs2) = Some (Inr (ws, l', out'))"
        by simp
      from Suc.hyps(1)[OF k this] st1 c2 show ?thesis by simp
    qed
  qed
qed

lemma totalDuration_pos:
  assumes "0 < maxStateIndex c" and "getStateDuration c 0 \<noteq> 0"
  shows "0 < totalDuration c"
proof -
  from assms(1) have "0 < unat (maxStateIndex c)" by (simp add: word_less_nat_alt)
  then have "[0..<unat (maxStateIndex c)] = 0 # [1..<unat (maxStateIndex c)]"
    by (simp add: upt_conv_Cons)
  then have "totalDuration c = unat (getStateDuration c 0) +
               sum_list (map (\<lambda>k. unat (getStateDuration c (of_nat k))) [1..<unat (maxStateIndex c)])"
    by (simp add: totalDuration_def stateDurations_def durationsOf_def)
  moreover have "0 < unat (getStateDuration c 0)" using assms(2) by (simp add: unat_gt_0)
  ultimately show ?thesis by simp
qed

lemma Stateful_fresh_progress:
  assumes pos: "0 < maxStateIndex c" "getStateDuration c 0 \<noteq> 0"
    and fresh: "currentStateIndex c = 0" "timeSpentOnCurrentState c = 0"
    and res: "Stateful_doControl c r out = Some (Inr (ws, c', out'))"
    and fin: "finished ws"
  shows "unat (remainingTime ws) < unat r"
proof -
  have act: "currentStateIndex c < maxStateIndex c" using pos fresh by simp
  have "unat r < 2 ^ 32" using unsigned_less[of r] by simp
  then have nov: "unat (timeSpentOnCurrentState c) + unat r < 2 ^ 32" using fresh by simp
  have c0: "consumedTime c = 0" using fresh by (simp add: consumedTime_def)
  from Stateful_doControl_accounting[OF act nov, of out] res
  have a: "finished ws = (totalDuration c \<le> consumedTime c + unat r)"
    and b: "finished ws \<longrightarrow>
              unat (remainingTime ws) = consumedTime c + unat r - totalDuration c" by auto
  from totalDuration_pos[OF pos] a b fin c0 show ?thesis by simp
qed

lemma Looping_fresh_progress:
  assumes "0 < maxStateIndex (controller l)" "getStateDuration (controller l) 0 \<noteq> 0"
    and "currentLoopCount l < maxLoopCount l"
    and "currentStateIndex (controller l) = 0" "timeSpentOnCurrentState (controller l) = 0"
    and "Looping_doControl l r out = Some (Inr (ws, l', out'))"
    and "finished ws"
  shows "unat (remainingTime ws) < unat r"
  using assms
proof (induction "unat (maxLoopCount l) - unat (currentLoopCount l)" arbitrary: l r out)
  case 0
  then show ?case by (simp add: word_less_nat_alt)
next
  case (Suc k)
  note lt = Suc.prems(3)
  then have nle: "\<not> maxLoopCount l \<le> currentLoopCount l" by simp
  from Stateful_doControl_total[of "controller l" r out] obtain ws1 c1 evs1 where
    inner: "Stateful_doControl (controller l) r out = Some (Inr (ws1, c1, out @ evs1))" by blast
  note st1 = Stateful_doControl_static[OF inner]
  show ?case
  proof (cases "finished ws1")
    case False
    with nle inner
    have "Looping_doControl l r out = Some (Inr (ws1, l\<lparr>controller := c1\<rparr>, out @ evs1))"
      by (subst Looping_doControl.simps) simp
    with Suc.prems(6,7) False show ?thesis by simp
  next
    case True
    from Stateful_fresh_progress[OF Suc.prems(1,2,4,5) inner True]
    have p1: "unat (remainingTime ws1) < unat r" .
    let ?l1 = "l\<lparr>controller := c1, currentLoopCount := currentLoopCount l + 1\<rparr>"
    show ?thesis
    proof (cases "maxLoopCount l \<le> currentLoopCount l + 1")
      case le: True
      with True nle inner
      have "Looping_doControl l r out = Some (Inr (ws1, ?l1, out @ evs1))"
        by (subst Looping_doControl.simps) simp
      with Suc.prems(6) p1 show ?thesis by simp
    next
      case gt: False
      from Stateful_reset_shape[of c1 "out @ evs1"] obtain c2 evs2 where
        rs: "Stateful_reset c1 (out @ evs1) = (c2, (out @ evs1) @ evs2)"
        and c2: "getStateDuration c2 = getStateDuration c1" "maxStateIndex c2 = maxStateIndex c1"
          "currentStateIndex c2 = 0" "timeSpentOnCurrentState c2 = 0"
        by blast
      let ?l2 = "?l1\<lparr>controller := c2\<rparr>"
      have rec: "Looping_doControl l r out =
                   Looping_doControl ?l2 (remainingTime ws1) ((out @ evs1) @ evs2)"
        using True nle inner gt rs by (subst Looping_doControl.simps) simp
      have k: "k = unat (maxLoopCount ?l2) - unat (currentLoopCount ?l2)"
        using Suc.hyps(2) unat_succ[OF lt] by simp
      have run2: "Looping_doControl ?l2 (remainingTime ws1) ((out @ evs1) @ evs2)
                    = Some (Inr (ws, l', out'))"
        using Suc.prems(6) rec by simp
      have a1: "0 < maxStateIndex (controller ?l2)" using Suc.prems(1) c2 st1 by simp
      have a2: "getStateDuration (controller ?l2) 0 \<noteq> 0" using Suc.prems(2) c2 st1 by simp
      have a3: "currentLoopCount ?l2 < maxLoopCount ?l2" using gt by simp
      have a4: "currentStateIndex (controller ?l2) = 0" using c2 by simp
      have a5: "timeSpentOnCurrentState (controller ?l2) = 0" using c2 by simp
      from Suc.hyps(1)[OF k a1 a2 a3 a4 a5 run2 Suc.prems(7)] p1 show ?thesis by simp
    qed
  qed
qed

lemma ILed_doControl_total:
  "\<exists>ws c' evs. ILed_doControl c t out = Some (Inr (ws, c', out @ evs)) \<and>
     takesTime c' = takesTime c"
proof (cases c)
  case (Stateful s)
  from Stateful_doControl_total[of s t out] obtain ws s' evs where
    r: "Stateful_doControl s t out = Some (Inr (ws, s', out @ evs))" by blast
  from Stateful_doControl_static[OF r] r Stateful show ?thesis
    by (intro exI[of _ ws] exI[of _ "Stateful s'"] exI[of _ evs]) simp
next
  case (Looping l)
  from Looping_doControl_total[of l t out] obtain ws l' evs where
    r: "Looping_doControl l t out = Some (Inr (ws, l', out @ evs))" by blast
  from Looping_doControl_static[OF r] r Looping show ?thesis
    by (intro exI[of _ ws] exI[of _ "Looping l'"] exI[of _ evs]) simp
qed

lemma ILed_fresh_progress:
  assumes "takesTime c" and "justReset c"
    and "ILed_doControl c r out = Some (Inr (ws, c', out'))" and "finished ws"
  shows "unat (remainingTime ws) < unat r"
proof (cases c)
  case (Stateful s)
  with assms(3) obtain s' where "Stateful_doControl s r out = Some (Inr (ws, s', out'))"
    by (auto split: option.splits sum.splits)
  from Stateful_fresh_progress[OF _ _ _ _ this assms(4)] assms(1,2) Stateful
  show ?thesis by simp
next
  case (Looping l)
  with assms(3) obtain l' where "Looping_doControl l r out = Some (Inr (ws, l', out'))"
    by (auto split: option.splits sum.splits)
  from Looping_fresh_progress[OF _ _ _ _ _ this assms(4)] assms(1,2) Looping
  show ?thesis by simp
qed

lemma ILed_reset_shape:
  "\<exists>c' evs. ILed_reset c out = (c', out @ evs) \<and> takesTime c' = takesTime c \<and> justReset c'"
proof (cases c)
  case (Stateful s)
  from Stateful_reset_shape[of s out] obtain s' evs where
    "Stateful_reset s out = (s', out @ evs)" "getStateDuration s' = getStateDuration s"
    "maxStateIndex s' = maxStateIndex s" "currentStateIndex s' = 0"
    "timeSpentOnCurrentState s' = 0" by blast
  with Stateful show ?thesis
    by (intro exI[of _ "Stateful s'"] exI[of _ evs]) simp
next
  case (Looping l)
  from Looping_reset_shape[of l out] obtain l' evs where
    "Looping_reset l out = (l', out @ evs)" "maxLoopCount l' = maxLoopCount l"
    "currentLoopCount l' = 0"
    "getStateDuration (controller l') = getStateDuration (controller l)"
    "maxStateIndex (controller l') = maxStateIndex (controller l)"
    "currentStateIndex (controller l') = 0" "timeSpentOnCurrentState (controller l') = 0"
    by blast
  with Looping show ?thesis
    by (intro exI[of _ "Looping l'"] exI[of _ evs]) simp
qed

lemma list_all_update:
  "list_all P xs \<Longrightarrow> P x \<Longrightarrow> list_all P (xs[i := x])"
  by (induction xs arbitrary: i) (auto split: nat.splits)

lemma switchToController_shape:
  assumes "unat idx < length (controllers sw)" and "list_all takesTime (controllers sw)"
  shows "\<exists>sw' evs. switchToController idx sw out = (sw', out @ evs) \<and>
           currentControllerIndex sw' = idx \<and>
           length (controllers sw') = length (controllers sw) \<and>
           list_all takesTime (controllers sw') \<and> justReset (controllers sw' ! unat idx)"
proof -
  let ?c = "controllers sw ! unat idx"
  from ILed_reset_shape[of ?c out] obtain c' evs where
    r: "ILed_reset ?c out = (c', out @ evs)" "takesTime c' = takesTime ?c" "justReset c'" by blast
  have "takesTime ?c" using assms by (simp add: list_all_length)
  with r have t: "takesTime c'" by simp
  let ?sw' = "sw\<lparr>currentControllerIndex := idx,
                  controllers := (controllers sw)[unat idx := c']\<rparr>"
  have "switchToController idx sw out = (?sw', out @ evs)"
    using assms(1) r(1) by (simp add: switchToController_def getControllerByIndex_def)
  moreover have "list_all takesTime (controllers ?sw')"
    using assms(2) t by (simp add: list_all_update)
  ultimately show ?thesis using assms(1) r(3)
    by (intro exI[of _ ?sw'] exI[of _ evs]) simp
qed

lemma next_index_in_range:
  fixes idx :: u8
  assumes "cs \<noteq> []" and "length cs < 256" and "unat idx < length cs"
  shows "unat (if uint idx < uint (of_nat (length cs) :: u8) - 1 then idx + 1 else 0) < length cs"
proof (cases "uint idx < uint (of_nat (length cs) :: u8) - 1")
  case True
  have c: "unat (of_nat (length cs) :: u8) = length cs" using assms(2) by (simp add: unat_of_nat)
  from True have "int (unat idx) < int (unat (of_nat (length cs) :: u8)) - 1"
    by (simp only: uint_nat)
  then have lt: "unat idx + 1 < length cs" unfolding c by linarith
  then have "unat idx + 1 < 2 ^ LENGTH(8)" using assms(2) by simp
  then have "unat (idx + 1) = unat idx + 1" by (simp add: unat_word_ariths)
  with lt True show ?thesis by simp
next
  case False
  with assms(1) show ?thesis by simp
qed

lemma Switching_loop_step:
  assumes wf: "wellFormed sw"
  shows "\<exists>ws c1 evs1 sw1. 
           ILed_doControl (controllers sw ! unat (currentControllerIndex sw)) r out
             = Some (Inr (ws, c1, out @ evs1)) \<and>
           sw1 = sw\<lparr>controllers := (controllers sw)[unat (currentControllerIndex sw) := c1]\<rparr> \<and>
           wellFormed sw1 \<and>
           (\<not> finished ws \<longrightarrow>
              Switching_loop sw r out = Some (Inr (suggestedSleepTime ws, sw1, out @ evs1))) \<and>
           (finished ws \<longrightarrow>
              (\<exists>sw2 evs2. wellFormed sw2 \<and>
                 justReset (controllers sw2 ! unat (currentControllerIndex sw2)) \<and>
                 Switching_loop sw r out =
                   Switching_loop sw2 (remainingTime ws) ((out @ evs1) @ evs2)))"
proof -
  let ?idx = "currentControllerIndex sw"
  let ?c = "controllers sw ! unat ?idx"
  from wf have ne: "controllers sw \<noteq> []" and len: "length (controllers sw) < 256"
    and idx: "unat ?idx < length (controllers sw)" and all: "list_all takesTime (controllers sw)"
    by (simp_all add: wellFormed_def)
  have get: "getControllerByIndex sw ?idx = Some ?c" using idx by (simp add: getControllerByIndex_def)
  from ILed_doControl_total[of ?c r out] obtain ws c1 evs1 where
    dc: "ILed_doControl ?c r out = Some (Inr (ws, c1, out @ evs1))"
    and tt: "takesTime c1 = takesTime ?c" by blast
  have tc: "takesTime ?c" using all idx by (simp add: list_all_length)
  let ?sw1 = "sw\<lparr>controllers := (controllers sw)[unat ?idx := c1]\<rparr>"
  have all1: "list_all takesTime (controllers ?sw1)"
    using all tc tt by (simp add: list_all_update)
  have wf1: "wellFormed ?sw1" using ne len idx all1 by (simp add: wellFormed_def)
  have A: "\<not> finished ws \<longrightarrow>
              Switching_loop sw r out = Some (Inr (suggestedSleepTime ws, ?sw1, out @ evs1))"
    using get dc by (subst Switching_loop.simps) (simp add: Let_def)
  have B: "finished ws \<longrightarrow>
              (\<exists>sw2 evs2. wellFormed sw2 \<and>
                 justReset (controllers sw2 ! unat (currentControllerIndex sw2)) \<and>
                 Switching_loop sw r out =
                   Switching_loop sw2 (remainingTime ws) ((out @ evs1) @ evs2))"
  proof
    assume fin: "finished ws"
    let ?next = "if uint (currentControllerIndex ?sw1) < uint (getControllerCount ?sw1) - 1
                 then currentControllerIndex ?sw1 + 1 else 0"
    have ne1: "controllers ?sw1 \<noteq> []" and len1: "length (controllers ?sw1) < 256"
      and idx1: "unat (currentControllerIndex ?sw1) < length (controllers ?sw1)"
      using ne len idx by simp_all
    have nx: "unat ?next < length (controllers ?sw1)"
      using next_index_in_range[OF ne1 len1 idx1] by (simp only: getControllerCount_def)
    from switchToController_shape[OF nx all1, of "out @ evs1"] obtain sw2 evs2 where
      s: "switchToController ?next ?sw1 (out @ evs1) = (sw2, (out @ evs1) @ evs2)"
        "currentControllerIndex sw2 = ?next"
        "length (controllers sw2) = length (controllers ?sw1)"
        "list_all takesTime (controllers sw2)" "justReset (controllers sw2 ! unat ?next)"
      by blast
    have wf2: "wellFormed sw2" using s nx ne len by (auto simp: wellFormed_def)
    have "Switching_loop sw r out = Switching_loop sw2 (remainingTime ws) ((out @ evs1) @ evs2)"
      using get dc fin s(1) by (subst Switching_loop.simps) (simp add: Let_def)
    with wf2 s show "\<exists>sw2 evs2. wellFormed sw2 \<and>
                 justReset (controllers sw2 ! unat (currentControllerIndex sw2)) \<and>
                 Switching_loop sw r out =
                   Switching_loop sw2 (remainingTime ws) ((out @ evs1) @ evs2)"
      by (intro exI[of _ sw2] exI[of _ evs2]) simp
  qed
  from dc wf1 A B show ?thesis
    by (intro exI[of _ ws] exI[of _ c1] exI[of _ evs1] exI[of _ ?sw1]) simp
qed

lemma Switching_loop_fresh:
  assumes "wellFormed sw"
    and "justReset (controllers sw ! unat (currentControllerIndex sw))"
  shows "\<exists>s sw' evs. Switching_loop sw r out = Some (Inr (s, sw', out @ evs)) \<and> wellFormed sw'"
  using assms
proof (induction "unat r" arbitrary: r sw out rule: less_induct)
  case less
  let ?c = "controllers sw ! unat (currentControllerIndex sw)"
  from Switching_loop_step[OF less.prems(1), of r out] obtain ws c1 evs1 sw1 where
    dc: "ILed_doControl ?c r out = Some (Inr (ws, c1, out @ evs1))"
    and wf1: "wellFormed sw1"
    and A: "\<not> finished ws \<longrightarrow>
              Switching_loop sw r out = Some (Inr (suggestedSleepTime ws, sw1, out @ evs1))"
    and B: "finished ws \<longrightarrow>
              (\<exists>sw2 evs2. wellFormed sw2 \<and>
                 justReset (controllers sw2 ! unat (currentControllerIndex sw2)) \<and>
                 Switching_loop sw r out =
                   Switching_loop sw2 (remainingTime ws) ((out @ evs1) @ evs2))" by blast
  show ?case
  proof (cases "finished ws")
    case False
    with A wf1 show ?thesis by blast
  next
    case True
    have tc: "takesTime ?c"
      using less.prems(1) by (simp add: wellFormed_def list_all_length)
    from ILed_fresh_progress[OF tc less.prems(2) dc True]
    have dec: "unat (remainingTime ws) < unat r" .
    from B True obtain sw2 evs2 where
      wf2: "wellFormed sw2"
      and jr: "justReset (controllers sw2 ! unat (currentControllerIndex sw2))"
      and eq: "Switching_loop sw r out =
                 Switching_loop sw2 (remainingTime ws) ((out @ evs1) @ evs2)" by blast
    from less.hyps[OF dec wf2 jr, of "(out @ evs1) @ evs2"] obtain s sw' evs where
      "Switching_loop sw2 (remainingTime ws) ((out @ evs1) @ evs2)
         = Some (Inr (s, sw', ((out @ evs1) @ evs2) @ evs))" "wellFormed sw'" by blast
    with eq show ?thesis
      by (intro exI[of _ s] exI[of _ sw'] exI[of _ "evs1 @ evs2 @ evs"]) simp
  qed
qed

lemma Switching_loop_total:
  assumes "wellFormed sw"
  shows "\<exists>s sw' evs. Switching_loop sw r out = Some (Inr (s, sw', out @ evs)) \<and> wellFormed sw'"
proof -
  from Switching_loop_step[OF assms, of r out] obtain ws c1 evs1 sw1 where
    dc: "ILed_doControl (controllers sw ! unat (currentControllerIndex sw)) r out
           = Some (Inr (ws, c1, out @ evs1))"
    and wf1: "wellFormed sw1"
    and A: "\<not> finished ws \<longrightarrow>
              Switching_loop sw r out = Some (Inr (suggestedSleepTime ws, sw1, out @ evs1))"
    and B: "finished ws \<longrightarrow>
              (\<exists>sw2 evs2. wellFormed sw2 \<and>
                 justReset (controllers sw2 ! unat (currentControllerIndex sw2)) \<and>
                 Switching_loop sw r out =
                   Switching_loop sw2 (remainingTime ws) ((out @ evs1) @ evs2))" by blast
  show ?thesis
  proof (cases "finished ws")
    case False
    with A wf1 show ?thesis by blast
  next
    case True
    with B obtain sw2 evs2 where
      wf2: "wellFormed sw2"
      and jr: "justReset (controllers sw2 ! unat (currentControllerIndex sw2))"
      and eq: "Switching_loop sw r out =
                 Switching_loop sw2 (remainingTime ws) ((out @ evs1) @ evs2)" by blast
    from Switching_loop_fresh[OF wf2 jr, of "remainingTime ws" "(out @ evs1) @ evs2"]
    obtain s sw' evs where
      "Switching_loop sw2 (remainingTime ws) ((out @ evs1) @ evs2)
         = Some (Inr (s, sw', ((out @ evs1) @ evs2) @ evs))" "wellFormed sw'" by blast
    with eq show ?thesis
      by (intro exI[of _ s] exI[of _ sw'] exI[of _ "evs1 @ evs2 @ evs"]) simp
  qed
qed

lemma Switching_doControl_total:
  assumes "wellFormed sw"
  shows "\<exists>ws sw' evs. Switching_doControl sw t out = Some (Inr (ws, sw', out @ evs)) \<and>
           \<not> finished ws \<and> wellFormed sw'"
proof -
  from Switching_loop_total[OF assms, of t out] obtain s sw' evs where
    "Switching_loop sw t out = Some (Inr (s, sw', out @ evs))" "wellFormed sw'" by blast
  then show ?thesis
    by (intro exI[of _ "unfinishedWorkState s"] exI[of _ sw'] exI[of _ evs])
       (simp add: Switching_doControl_def unfinishedWorkState_def)
qed

lemma runCalls_Switching:
  assumes "wellFormed sw"
  shows "\<exists>rs sw' evs. runCalls Switching_doControl sw ts out = Some (Inr (rs, sw', out @ evs)) \<and>
           length rs = length ts \<and> (\<forall>r\<in>set rs. \<not> finished r)"
  using assms
proof (induction ts arbitrary: sw out)
  case Nil
  show ?case by (intro exI[of _ "[]"] exI[of _ sw] exI[of _ "[]"]) simp
next
  case (Cons t ts)
  from Switching_doControl_total[OF Cons.prems, of t out] obtain ws sw1 evs1 where
    s: "Switching_doControl sw t out = Some (Inr (ws, sw1, out @ evs1))" "\<not> finished ws"
      "wellFormed sw1" by blast
  from Cons.IH[OF s(3), of "out @ evs1"] obtain rs sw' evs where
    "runCalls Switching_doControl sw1 ts (out @ evs1) = Some (Inr (rs, sw', (out @ evs1) @ evs))"
    "length rs = length ts" "\<forall>r\<in>set rs. \<not> finished r" by blast
  with s show ?case
    by (intro exI[of _ "ws # rs"] exI[of _ sw'] exI[of _ "evs1 @ evs"]) simp
qed

lemma next_index_eq:
  fixes idx :: u8
  assumes "length cs < 256"
  shows "(uint idx < uint (of_nat (length cs) :: u8) - 1) = (unat idx + 1 < length cs)"
proof -
  have c: "unat (of_nat (length cs) :: u8) = length cs" using assms by (simp add: unat_of_nat)
  have "(uint idx < uint (of_nat (length cs) :: u8) - 1) =
          (int (unat idx) < int (unat (of_nat (length cs) :: u8)) - 1)"
    by (simp only: uint_nat)
  also have "\<dots> = (unat idx + 1 < length cs)" unfolding c by linarith
  finally show ?thesis .
qed

lemma Switching_doControl_handoff:
  assumes idx: "unat (currentControllerIndex sw) < length (controllers sw)"
    and len: "length (controllers sw) < 256"
    and dc: "ILed_doControl (controllers sw ! unat (currentControllerIndex sw)) t out
               = Some (Inr (ws, c1, out1))"
  shows "if finished ws
         then (let cs1 = (controllers sw)[unat (currentControllerIndex sw) := c1];
                   next = (if unat (currentControllerIndex sw) + 1 < length (controllers sw)
                           then currentControllerIndex sw + 1 else 0);
                   (c2, out2) = ILed_reset (cs1 ! unat next) out1
               in unat next < length (controllers sw) \<and> justReset c2 \<and>
                  Switching_doControl sw t out =
                    Switching_doControl
                      (sw\<lparr>controllers := cs1[unat next := c2], currentControllerIndex := next\<rparr>)
                      (remainingTime ws) out2)
         else Switching_doControl sw t out =
                Some (Inr (unfinishedWorkState (suggestedSleepTime ws),
                           sw\<lparr>controllers := (controllers sw)[unat (currentControllerIndex sw) := c1]\<rparr>,
                           out1))"
proof -
  let ?idx = "currentControllerIndex sw"
  let ?cs1 = "(controllers sw)[unat ?idx := c1]"
  let ?sw1 = "sw\<lparr>controllers := ?cs1\<rparr>"
  have get: "getControllerByIndex sw ?idx = Some (controllers sw ! unat ?idx)"
    using idx by (simp add: getControllerByIndex_def)
  show ?thesis
  proof (cases "finished ws")
    case False
    have "Switching_loop sw t out = Some (Inr (suggestedSleepTime ws, ?sw1, out1))"
      using get dc False by (subst Switching_loop.simps) (simp add: Let_def)
    with False show ?thesis by (simp add: Switching_doControl_def)
  next
    case True
    let ?next = "if unat ?idx + 1 < length (controllers sw) then ?idx + 1 else 0"
    have ne: "controllers sw \<noteq> []" using idx by auto
    have nx0: "unat (if uint ?idx < uint (of_nat (length (controllers sw)) :: u8) - 1
                    then ?idx + 1 else 0) < length (controllers sw)"
      using next_index_in_range[OF ne len idx] .
    have nxe: "(if uint ?idx < uint (of_nat (length (controllers sw)) :: u8) - 1
                then ?idx + 1 else 0) = ?next"
      by (simp only: next_index_eq[OF len])
    have nx: "unat ?next < length (controllers sw)" using nx0 unfolding nxe .
    from ILed_reset_shape[of "?cs1 ! unat ?next" out1] obtain c2 evs where
      r: "ILed_reset (?cs1 ! unat ?next) out1 = (c2, out1 @ evs)" "justReset c2" by blast
    let ?sw2 = "sw\<lparr>controllers := ?cs1[unat ?next := c2], currentControllerIndex := ?next\<rparr>"
    have sw: "switchToController ?next ?sw1 out1 = (?sw2, out1 @ evs)"
      using nx r(1) by (simp add: switchToController_def getControllerByIndex_def)
    have nxe1: "(if uint (currentControllerIndex ?sw1) < uint (getControllerCount ?sw1) - 1
                 then currentControllerIndex ?sw1 + 1 else 0) = ?next"
    proof -
      have a: "currentControllerIndex ?sw1 = ?idx" by simp
      have b: "getControllerCount ?sw1 = of_nat (length (controllers sw))"
        by (simp add: getControllerCount_def)
      show ?thesis unfolding a b by (rule nxe)
    qed
    have "Switching_loop sw t out = Switching_loop ?sw2 (remainingTime ws) (out1 @ evs)"
      apply (subst Switching_loop.simps)
      apply (simp only: get dc option.simps sum.case prod.case Let_def True if_True nxe1 sw)
      done
    then have "Switching_doControl sw t out = Switching_doControl ?sw2 (remainingTime ws) (out1 @ evs)"
      by (simp add: Switching_doControl_def)
    with True nx r show ?thesis by (simp add: Let_def)
  qed
qed

lemma wellFormed_mainController: "wellFormed mainController"
  by (simp add: wellFormed_def mainController_def slowTwoLedCombinationsControllerLoop_def
        fastTwoLedCombinationsControllerLoop_def flowingThreeLedsControllerLoop_def
        twoLedCombinationsFadeOutThenInControllerLoop_def sequentialFadeControllerLoop_def
        oneByOneFadeController_def newLoopingController_def newStatefulController_def
        catalog_defs)

lemma wellFormed_reset:
  assumes "wellFormed sw"
  shows "wellFormed (fst (Switching_reset sw out)) \<and>
         (\<exists>evs. snd (Switching_reset sw out) = out @ evs)"
proof -
  from assms have ne: "controllers sw \<noteq> []" and len: "length (controllers sw) < 256"
    and all: "list_all takesTime (controllers sw)" by (simp_all add: wellFormed_def)
  have z: "unat (0::u8) < length (controllers sw)" using ne by simp
  from switchToController_shape[OF z all, of out] obtain sw' evs where
    "switchToController 0 sw out = (sw', out @ evs)" "currentControllerIndex sw' = 0"
    "length (controllers sw') = length (controllers sw)" "list_all takesTime (controllers sw')"
    by blast
  with ne len show ?thesis by (auto simp: Switching_reset_def wellFormed_def)
qed

lemmas main_defs = mainController_def slowTwoLedCombinationsControllerLoop_def
  fastTwoLedCombinationsControllerLoop_def flowingThreeLedsControllerLoop_def
  twoLedCombinationsFadeOutThenInControllerLoop_def sequentialFadeControllerLoop_def
  oneByOneFadeController_def Switching_reset_def switchToController_def
  getControllerByIndex_def getControllerCount_def Looping_reset_def Looping_doControl.simps
  Let_def

lemma first_animation_finishes:
  "(case ILed_doControl (controllers (fst (Switching_reset mainController [])) ! 0) 20300
           (snd (Switching_reset mainController [])) of
      Some (Inr (ws, c1, out1)) \<Rightarrow> finished ws \<and> remainingTime ws = 300
    | _ \<Rightarrow> False)"
  by (simp add: main_defs eval_defs catalog_defs word_le_nat_alt word_less_nat_alt)

lemma handoff_on_mainController:
  "(case Switching_doControl (fst (Switching_reset mainController [])) 20300
           (snd (Switching_reset mainController [])) of
      Some (Inr (ws, sw', out')) \<Rightarrow>
        ws = unfinishedWorkState 200 \<and> currentControllerIndex sw' = 1 \<and>
        (case controllers sw' ! 1 of
           Looping l \<Rightarrow> currentLoopCount l = 0 \<and> currentStateIndex (controller l) = 0 \<and>
                        timeSpentOnCurrentState (controller l) = 300
         | Stateful c \<Rightarrow> False)
    | _ \<Rightarrow> False)"
  by (simp add: Switching_doControl_def Switching_loop.simps main_defs eval_defs catalog_defs
        word_le_nat_alt word_less_nat_alt)


text \<open>
  C5. From its reset state the \<open>mainController\<close> of the sketch answers every list of
  elapsed times call by call, and every answer is an unfinished result. More generally every
  call of \<open>doControl\<close> on a well-formed sequencer returns, with an unfinished result and a
  well-formed sequencer: an animation that finishes inside the call is followed by one that
  has just been reset and takes time, so the time that is left shrinks. One call proceeds
  as follows. When the animation under the cursor does not finish, the call ends with its
  suggested sleep time and only that animation and the trace have changed. When it
  finishes, the cursor moves to the next index, or to 0 after the last one, the animation
  there is reset, and the call goes on exactly as a call on that sequencer with the
  remaining time of the finished animation as the elapsed time. On the sketch, a call of
  20300 ms after reset finishes the first animation (20000 ms) and ends in the second with
  300 ms spent on its first state of 500 ms.
\<close>

theorem sequencer_never_done:
  "(\<exists>rs sw' out'.
      runCalls Switching_doControl (fst (Switching_reset mainController out)) ts
          (snd (Switching_reset mainController out))
        = Some (Inr (rs, sw', out')) \<and>
      length rs = length ts \<and> (\<forall>r\<in>set rs. \<not> finished r)) \<and>
   (\<forall>sw t out.
      wellFormed sw \<longrightarrow>
      (\<exists>ws sw' out'. Switching_doControl sw t out = Some (Inr (ws, sw', out')) \<and>
         \<not> finished ws \<and> wellFormed sw')) \<and>
   (\<forall>sw t out ws c1 out1.
      unat (currentControllerIndex sw) < length (controllers sw) \<longrightarrow>
      length (controllers sw) < 256 \<longrightarrow>
      ILed_doControl (controllers sw ! unat (currentControllerIndex sw)) t out
        = Some (Inr (ws, c1, out1)) \<longrightarrow>
      (if finished ws
       then (let cs1 = (controllers sw)[unat (currentControllerIndex sw) := c1];
                 next = (if unat (currentControllerIndex sw) + 1 < length (controllers sw)
                         then currentControllerIndex sw + 1 else 0);
                 (c2, out2) = ILed_reset (cs1 ! unat next) out1
             in unat next < length (controllers sw) \<and> justReset c2 \<and>
                Switching_doControl sw t out =
                  Switching_doControl
                    (sw\<lparr>controllers := cs1[unat next := c2], currentControllerIndex := next\<rparr>)
                    (remainingTime ws) out2)
       else Switching_doControl sw t out =
              Some (Inr (unfinishedWorkState (suggestedSleepTime ws),
                         sw\<lparr>controllers := (controllers sw)[unat (currentControllerIndex sw) := c1]\<rparr>,
                         out1)))) \<and>
   (\<exists>sw' out' l.
      Switching_doControl (fst (Switching_reset mainController [])) 20300
          (snd (Switching_reset mainController []))
        = Some (Inr (unfinishedWorkState 200, sw', out')) \<and>
      currentControllerIndex sw' = 1 \<and> controllers sw' ! 1 = Looping l \<and>
      currentLoopCount l = 0 \<and> currentStateIndex (controller l) = 0 \<and>
      timeSpentOnCurrentState (controller l) = 300)"
proof (intro conjI allI impI)
  from wellFormed_reset[OF wellFormed_mainController, of out]
  have "wellFormed (fst (Switching_reset mainController out))" by simp
  from runCalls_Switching[OF this, of ts "snd (Switching_reset mainController out)"]
  show "\<exists>rs sw' out'.
      runCalls Switching_doControl (fst (Switching_reset mainController out)) ts
          (snd (Switching_reset mainController out))
        = Some (Inr (rs, sw', out')) \<and>
      length rs = length ts \<and> (\<forall>r\<in>set rs. \<not> finished r)" by blast
next
  fix sw t out
  assume "wellFormed sw"
  from Switching_doControl_total[OF this, of t out]
  show "\<exists>ws sw' out'. Switching_doControl sw t out = Some (Inr (ws, sw', out')) \<and>
         \<not> finished ws \<and> wellFormed sw'" by blast
next
  fix sw :: SwitchingController and t out ws c1 out1
  assume "unat (currentControllerIndex sw) < length (controllers sw)"
    and "length (controllers sw) < 256"
    and "ILed_doControl (controllers sw ! unat (currentControllerIndex sw)) t out
        = Some (Inr (ws, c1, out1))"
  then show "if finished ws
       then (let cs1 = (controllers sw)[unat (currentControllerIndex sw) := c1];
                 next = (if unat (currentControllerIndex sw) + 1 < length (controllers sw)
                         then currentControllerIndex sw + 1 else 0);
                 (c2, out2) = ILed_reset (cs1 ! unat next) out1
             in unat next < length (controllers sw) \<and> justReset c2 \<and>
                Switching_doControl sw t out =
                  Switching_doControl
                    (sw\<lparr>controllers := cs1[unat next := c2], currentControllerIndex := next\<rparr>)
                    (remainingTime ws) out2)
       else Switching_doControl sw t out =
              Some (Inr (unfinishedWorkState (suggestedSleepTime ws),
                         sw\<lparr>controllers := (controllers sw)[unat (currentControllerIndex sw) := c1]\<rparr>,
                         out1))"
    by (rule Switching_doControl_handoff)
next
  from handoff_on_mainController
  show "\<exists>sw' out' l.
      Switching_doControl (fst (Switching_reset mainController [])) 20300
          (snd (Switching_reset mainController []))
        = Some (Inr (unfinishedWorkState 200, sw', out')) \<and>
      currentControllerIndex sw' = 1 \<and> controllers sw' ! 1 = Looping l \<and>
      currentLoopCount l = 0 \<and> currentStateIndex (controller l) = 0 \<and>
      timeSpentOnCurrentState (controller l) = 300"
    by (auto split: option.splits sum.splits ILedController.splits)
qed

theorem sequencer_never_done_witness:
  "(\<exists>rs sw' out'.
      runCalls Switching_doControl (fst (Switching_reset mainController [])) [0, 20300, 30]
          (snd (Switching_reset mainController []))
        = Some (Inr (rs, sw', out')) \<and>
      length rs = length [0, 20300, 30 :: u32] \<and> (\<forall>r\<in>set rs. \<not> finished r)) \<and>
   wellFormed (fst (Switching_reset mainController [])) \<and>
   (\<exists>ws sw' out'.
      Switching_doControl (fst (Switching_reset mainController [])) 20300
          (snd (Switching_reset mainController [])) = Some (Inr (ws, sw', out')) \<and>
      \<not> finished ws \<and> wellFormed sw') \<and>
   unat (currentControllerIndex (fst (Switching_reset mainController [])))
     < length (controllers (fst (Switching_reset mainController []))) \<and>
   length (controllers (fst (Switching_reset mainController []))) < 256 \<and>
   (\<exists>ws c1 out1 c2 out2.
      ILed_doControl (controllers (fst (Switching_reset mainController [])) ! 0) 20300
          (snd (Switching_reset mainController [])) = Some (Inr (ws, c1, out1)) \<and>
      finished ws \<and> remainingTime ws = 300 \<and>
      ILed_reset (((controllers (fst (Switching_reset mainController [])))[0 := c1]) ! 1) out1
        = (c2, out2) \<and>
      justReset c2 \<and>
      Switching_doControl (fst (Switching_reset mainController [])) 20300
          (snd (Switching_reset mainController [])) =
        Switching_doControl
          ((fst (Switching_reset mainController []))
             \<lparr>controllers := (controllers (fst (Switching_reset mainController [])))[0 := c1, 1 := c2],
              currentControllerIndex := 1\<rparr>)
          300 out2)"
proof -
  let ?sw = "fst (Switching_reset mainController [])"
  let ?out = "snd (Switching_reset mainController [])"
  note T = sequencer_never_done[of "[]" "[0, 20300, 30]"]
  have wf: "wellFormed ?sw"
    using wellFormed_reset[OF wellFormed_mainController, of "[]"] by simp
  have i0: "currentControllerIndex ?sw = 0" and n6: "length (controllers ?sw) = 6"
    by (simp_all add: main_defs eval_defs catalog_defs split_beta)
  have ix: "unat (currentControllerIndex ?sw) < length (controllers ?sw)"
    and ln: "length (controllers ?sw) < 256"
    unfolding i0 n6 by simp_all
  from first_animation_finishes obtain ws c1 out1 where
    d: "ILed_doControl (controllers ?sw ! 0) 20300 ?out = Some (Inr (ws, c1, out1))"
    and f: "finished ws" "remainingTime ws = 300"
    by (auto split: option.splits sum.splits)
  have d': "ILed_doControl (controllers ?sw ! unat (currentControllerIndex ?sw)) 20300 ?out
              = Some (Inr (ws, c1, out1))"
    unfolding i0 using d by simp
  obtain c2 out2 where r: "ILed_reset (((controllers ?sw)[0 := c1]) ! 1) out1 = (c2, out2)"
    by (cases "ILed_reset (((controllers ?sw)[0 := c1]) ! 1) out1") blast
  from T ix ln d' have
    "if finished ws
       then (let cs1 = (controllers ?sw)[unat (currentControllerIndex ?sw) := c1];
                 next = (if unat (currentControllerIndex ?sw) + 1 < length (controllers ?sw)
                         then currentControllerIndex ?sw + 1 else 0);
                 (c2, out2) = ILed_reset (cs1 ! unat next) out1
             in unat next < length (controllers ?sw) \<and> justReset c2 \<and>
                Switching_doControl ?sw 20300 ?out =
                  Switching_doControl
                    (?sw\<lparr>controllers := cs1[unat next := c2], currentControllerIndex := next\<rparr>)
                    (remainingTime ws) out2)
       else Switching_doControl ?sw 20300 ?out =
              Some (Inr (unfinishedWorkState (suggestedSleepTime ws),
                         ?sw\<lparr>controllers := (controllers ?sw)[unat (currentControllerIndex ?sw) := c1]\<rparr>,
                         out1))"
    by blast
  then have h: "justReset c2 \<and>
      Switching_doControl ?sw 20300 ?out =
        Switching_doControl
          (?sw\<lparr>controllers := (controllers ?sw)[0 := c1, 1 := c2], currentControllerIndex := 1\<rparr>)
          300 out2"
    unfolding i0 n6 using f r by (simp add: Let_def)
  from T wf have t: "\<exists>ws sw' out'.
      Switching_doControl ?sw 20300 ?out = Some (Inr (ws, sw', out')) \<and>
      \<not> finished ws \<and> wellFormed sw'" by blast
  from d f r h have e: "\<exists>ws c1 out1 c2 out2.
      ILed_doControl (controllers ?sw ! 0) 20300 ?out = Some (Inr (ws, c1, out1)) \<and>
      finished ws \<and> remainingTime ws = 300 \<and>
      ILed_reset (((controllers ?sw)[0 := c1]) ! 1) out1 = (c2, out2) \<and>
      justReset c2 \<and>
      Switching_doControl ?sw 20300 ?out =
        Switching_doControl
          (?sw\<lparr>controllers := (controllers ?sw)[0 := c1, 1 := c2], currentControllerIndex := 1\<rparr>)
          300 out2" by blast
  from T[THEN conjunct1] wf t ix ln e show ?thesis by (intro conjI)
qed

section \<open>C6: activation callbacks\<close>

text \<open>
  C6, as the code has it. One call of \<open>doControl\<close> calls the activation callback at most
  once: for the state that is current at the end of the call, when the machine has not
  finished and that state is not the one the call started in. A state that the call enters
  and leaves again gets no callback, and no callback is made when the index does not change.
\<close>

theorem activation_per_call:
  "\<exists>ws c' evs. Stateful_doControl c t out = Some (Inr (ws, c', out @ evs)) \<and>
     activations evs =
       (if \<not> finished ws \<and> currentStateIndex c' \<noteq> currentStateIndex c
        then [currentStateIndex c'] else [])"
proof (cases "maxStateIndex c \<le> currentStateIndex c")
  case True
  from Stateful_doControl_done[OF True, of t out] show ?thesis
    by (intro exI[of _ "finishedWorkState t"] exI[of _ c] exI[of _ "[]"])
       (simp add: finishedWorkState_def)
next
  case False
  then have act: "currentStateIndex c < maxStateIndex c" by simp
  obtain t' i' d' where loop:
    "advanceStates (getStateDuration c) (maxStateIndex c) (timeSpentOnCurrentState c + t)
       (currentStateIndex c) (getStateDuration c (currentStateIndex c)) = Some (t', i', d')"
    using advanceStates_total by (metis prod_cases3)
  from Stateful_doControl_active[OF act loop, of out] obtain ws c' evs where
    "Stateful_doControl c t out = Some (Inr (ws, c', out @ evs))"
    "currentStateIndex c' = i'" "finished ws = (maxStateIndex c \<le> i')"
    "activations evs =
       (if i' < maxStateIndex c \<and> i' \<noteq> currentStateIndex c then [i'] else [])" by blast
  then show ?thesis
    by (intro exI[of _ ws] exI[of _ c'] exI[of _ evs]) (auto simp: not_le)
qed

theorem activation_per_call_witness:
  "\<exists>ws c' evs.
     Stateful_doControl (fst (Stateful_reset (FlowingThreeLedsController 100) [])) 250 []
       = Some (Inr (ws, c', [] @ evs)) \<and>
     activations evs =
       (if \<not> finished ws \<and> currentStateIndex c'
             \<noteq> currentStateIndex (fst (Stateful_reset (FlowingThreeLedsController 100) []))
        then [currentStateIndex c'] else [])"
  by (rule activation_per_call)

text \<open>
  The claim that every state entered during a call gets its callback fails: five states of
  100 each, one call of 250 from the reset state. The index goes from 0 over 1 to 2 and the
  only callback is the one of state 2.
\<close>

theorem activation_per_call_counterexample:
  "(case Stateful_doControl (fst (Stateful_reset (FlowingThreeLedsController 100) [])) 250 [] of
      Some (Inr (ws, c', evs)) \<Rightarrow>
        \<not> finished ws \<and> currentStateIndex c' = 2 \<and> activations evs = [2] \<and>
        1 \<notin> set (activations evs)
    | _ \<Rightarrow> False)"
  by (simp add: eval_defs catalog_defs)

section \<open>C7: every call returns\<close>

text \<open>
  C7. The while loop of the state machine, a call of \<open>doControl\<close> on a state machine and a
  call of \<open>doControl\<close> on a repeater return a result, for every iteration count (0
  included), every state count and all durations (zero included): \<open>None\<close>, the loop that
  never ends, is not their value, and neither is a fault.
\<close>

theorem doControl_terminates:
  "(\<exists>r. advanceStates dur n t i d = Some r) \<and>
   (\<exists>ws c' out'. Stateful_doControl c e out = Some (Inr (ws, c', out'))) \<and>
   (\<exists>ws l' out'. Looping_doControl l e out = Some (Inr (ws, l', out')))"
  using advanceStates_total[of dur n t i d] Stateful_doControl_total[of c e out]
    Looping_doControl_total[of l e out] by blast

theorem doControl_terminates_witness:
  "(\<exists>r. advanceStates (\<lambda>i. 0) 5 7 0 0 = Some r) \<and>
   (\<exists>ws c' out'. Stateful_doControl (FlowingThreeLedsController 0) 7 [] = Some (Inr (ws, c', out'))) \<and>
   (\<exists>ws l' out'. Looping_doControl (newLoopingController (FlowingThreeLedsController 0) 3) 7 []
       = Some (Inr (ws, l', out')))"
  by (rule doControl_terminates)

section \<open>C8: the boundaries of a fade\<close>













section \<open>C9: a finished repeater does not touch its child\<close>

text \<open>
  C9. A LoopingController whose iteration counter has reached its iteration count, which
  is every LoopingController with count 0, answers any elapsed time with a finished result
  whose remaining time is that elapsed time. The controller it wraps is neither advanced nor
  reset: the repeater, its child included, and the output trace are returned as they were.
\<close>

theorem Looping_doControl_exhausted:
  assumes "maxLoopCount l \<le> currentLoopCount l"
  shows "Looping_doControl l t out = Some (Inr (finishedWorkState t, l, out))"
  using assms by (subst Looping_doControl.simps) simp

theorem Looping_doControl_exhausted_witness:
  "maxLoopCount (newLoopingController (FlowingThreeLedsController 100) 0)
     \<le> currentLoopCount (newLoopingController (FlowingThreeLedsController 100) 0) \<and>
   Looping_doControl (newLoopingController (FlowingThreeLedsController 100) 0) 250 [] =
     Some (Inr (\<lparr>finished = True, suggestedSleepTime = 0, remainingTime = 250\<rparr>,
                newLoopingController (FlowingThreeLedsController 100) 0, []))"
  using Looping_doControl_exhausted
          [of "newLoopingController (FlowingThreeLedsController 100) 0" 250 "[]"]
  by (simp add: newLoopingController_def finishedWorkState_def)

section \<open>C10: a fade of duration zero\<close>

lemma zero_fade_completes:
  assumes "Stateful_doControl c t out = Some (Inr (ws, c', out'))"
    and "\<not> finished ws" and "totalTransitionTime c' = 0"
  shows "\<not> pwmTransitionInProgress c'"
  using assms
  by (auto simp: Stateful_doControl_def animatePwmTransition_def fdiv_def Let_def
        finishedWorkState_def unfinishedWorkState_def setAnalogLedStates_def
      split: if_splits option.splits prod.splits sum.splits)

lemma zero_fade_first_tick:
  "(case Stateful_doControl
           (fst (Stateful_reset (SequentialFadeController 0 50 1000 300 100 1000) [])) 0 [] of
      Some (Inr (ws, c', out')) \<Rightarrow>
        \<not> finished ws \<and> totalTransitionTime c' = 0 \<and>
        out' = [AnalogOut (analogLedsState 1 0 0 0 0)]
    | _ \<Rightarrow> False)"
  by (simp add: eval_defs catalog_defs)

text \<open>
  C10. \<open>animatePwmTransition\<close> never divides by zero, and so neither does \<open>doControl\<close>: the
  division is on the branch where the time spent is less than the total transition time. A
  fade whose total transition time is 0 takes the other branch at once: the target snapshot
  is written as it is stored and the fade flag is cleared, so that no unfinished call of
  \<open>doControl\<close> leaves a fade of duration 0 in progress.
\<close>

theorem no_division_by_zero:
  "animatePwmTransition t c out \<noteq> Inl DivisionByZero \<and>
   Stateful_doControl c t out \<noteq> Some (Inl DivisionByZero) \<and>
   (totalTransitionTime c = 0 \<longrightarrow>
      animatePwmTransition t c out =
        Inr (c\<lparr>pwmTransitionInProgress := False\<rparr>, out @ [AnalogOut (targetState c)])) \<and>
   (\<forall>ws c' out'.
      Stateful_doControl c t out = Some (Inr (ws, c', out')) \<longrightarrow> \<not> finished ws \<longrightarrow>
      totalTransitionTime c' = 0 \<longrightarrow> \<not> pwmTransitionInProgress c')"
proof (intro conjI impI allI)
  from animatePwmTransition_Inr[of t c out]
  show "animatePwmTransition t c out \<noteq> Inl DivisionByZero" by auto
  from Stateful_doControl_total[of c t out]
  show "Stateful_doControl c t out \<noteq> Some (Inl DivisionByZero)" by auto
next
  assume "totalTransitionTime c = 0"
  then show "animatePwmTransition t c out =
        Inr (c\<lparr>pwmTransitionInProgress := False\<rparr>, out @ [AnalogOut (targetState c)])"
    by (simp add: animatePwmTransition_def setAnalogLedStates_def)
next
  fix ws c' out'
  assume "Stateful_doControl c t out = Some (Inr (ws, c', out'))" "\<not> finished ws"
    "totalTransitionTime c' = 0"
  then show "\<not> pwmTransitionInProgress c'" by (rule zero_fade_completes)
qed

theorem no_division_by_zero_witness:
  "totalTransitionTime (fst (Stateful_reset (SequentialFadeController 0 50 1000 300 100 1000) [])) = 0 \<and>
   animatePwmTransition 0 (fst (Stateful_reset (SequentialFadeController 0 50 1000 300 100 1000) [])) []
     \<noteq> Inl DivisionByZero \<and>
   Stateful_doControl (fst (Stateful_reset (SequentialFadeController 0 50 1000 300 100 1000) [])) 0 []
     \<noteq> Some (Inl DivisionByZero) \<and>
   animatePwmTransition 0 (fst (Stateful_reset (SequentialFadeController 0 50 1000 300 100 1000) [])) [] =
     Inr ((fst (Stateful_reset (SequentialFadeController 0 50 1000 300 100 1000) []))
            \<lparr>pwmTransitionInProgress := False\<rparr>,
          [] @ [AnalogOut (targetState
             (fst (Stateful_reset (SequentialFadeController 0 50 1000 300 100 1000) [])))]) \<and>
   (\<exists>ws c' out'.
      Stateful_doControl (fst (Stateful_reset (SequentialFadeController 0 50 1000 300 100 1000) []))
          0 [] = Some (Inr (ws, c', out')) \<and>
      \<not> finished ws \<and> totalTransitionTime c' = 0 \<and> \<not> pwmTransitionInProgress c' \<and>
      out' = [AnalogOut (analogLedsState 1 0 0 0 0)])"
proof -
  let ?c = "fst (Stateful_reset (SequentialFadeController 0 50 1000 300 100 1000) [])"
  note T = no_division_by_zero[of 0 ?c "[]"]
  have z: "totalTransitionTime ?c = 0"
    by (simp add: eval_defs catalog_defs)
  from zero_fade_first_tick obtain ws c' out' where
    d: "Stateful_doControl ?c 0 [] = Some (Inr (ws, c', out'))"
    and f: "\<not> finished ws" "totalTransitionTime c' = 0"
      "out' = [AnalogOut (analogLedsState 1 0 0 0 0)]"
    by (auto split: option.splits sum.splits)
  from T d f have "\<not> pwmTransitionInProgress c'" by blast
  with d f have e: "\<exists>ws c' out'. Stateful_doControl ?c 0 [] = Some (Inr (ws, c', out')) \<and>
      \<not> finished ws \<and> totalTransitionTime c' = 0 \<and> \<not> pwmTransitionInProgress c' \<and>
      out' = [AnalogOut (analogLedsState 1 0 0 0 0)]" by blast
  from T z e show ?thesis by blast
qed

end
